theory Spec2Isabelle
  imports Complex_Main "HOL-Library.Monad_Syntax"
begin

section \<open>Conventions of the embedding\<close>

text \<open>
  The notebook \<^verbatim>\<open>extra_autodiff.ipynb\<close> holds four toy differentiators: a finite
  difference estimator, a computation graph with forward-mode symbolic gradients, a
  dual-number type, and a second version of the graph classes with reverse-mode
  backpropagation.

  \<^item> Python objects have identity and mutable attributes, so they live in a heap: a list
    of objects whose index is the object's address. A constructor call appends one object
    and returns its address. \<^verbatim>\<open>a is b\<close> is equality of addresses.
  \<^item> A method that recurses over the graph is a \<^theory_text>\<open>partial_function (option)\<close>:
    \<open>None\<close> means that the call does not return a result (it recurses for ever on a
    cyclic graph, reads an attribute that was never set, or the address holds no object).
  \<^item> Python numbers are one type \<open>'a\<close>; a definition asks only for the operations it
    uses (\<open>+\<close>, \<open>*\<close>, \<open>0\<close>, \<open>1\<close>), as Python's duck typing does. The difference
    between \<^verbatim>\<open>int\<close> and \<^verbatim>\<open>float\<close> is not modelled: concrete results are computed in
    \<open>int\<close> or \<open>real\<close>, which is what IEEE doubles compute as long as every intermediate
    result is an integer below \<open>2^53\<close> (or a dyadic fraction of few bits), as at the inputs
    used here. Infinities and NaN are outside the model.
\<close>

section \<open>Numeric differentiation\<close>

text \<open>
  \<^verbatim>\<open>
  def gradients(func, vars_list, eps=0.0001):
      partial_derivatives = []
      base_func_eval = func(*vars_list)
      for idx in range(len(vars_list)):
          tweaked_vars = vars_list[:]
          tweaked_vars[idx] += eps
          tweaked_func_eval = func(*tweaked_vars)
          derivative = (tweaked_func_eval - base_func_eval) / eps
          partial_derivatives.append(derivative)
      return partial_derivatives
  \<close>
  The state holds the list objects (by address) and a log of the argument tuples with
  which \<^verbatim>\<open>func\<close> was invoked. \<^verbatim>\<open>func\<close> itself is a pure function of its arguments: it
  receives the unpacked elements, never the list object. The result list is returned by
  value. Python's \<^verbatim>\<open>/\<close> raises on a zero divisor.
\<close>

datatype error = ZeroDivisionError | IndexError

record 'a pystate =
  list_objs :: "'a list list"
  call_log :: "'a list list"

definition slice_copy :: "nat \<Rightarrow> 'a pystate \<Rightarrow> nat \<times> 'a pystate" where
  \<comment> \<open>\<^verbatim>\<open>l[:]\<close>: a new list object with the elements of \<open>l\<close>\<close>
  "slice_copy l s =
     (length (list_objs s), s\<lparr>list_objs := list_objs s @ [list_objs s ! l]\<rparr>)"

definition iadd_item :: "nat \<Rightarrow> nat \<Rightarrow> 'a::plus \<Rightarrow> 'a pystate \<Rightarrow> error + 'a pystate" where
  \<comment> \<open>\<^verbatim>\<open>l[idx] += eps\<close>: updates the list object \<open>l\<close> in place\<close>
  "iadd_item l idx e s =
     (let xs = list_objs s ! l in
      if idx < length xs
      then Inr (s\<lparr>list_objs := (list_objs s)[l := xs[idx := xs ! idx + e]]\<rparr>)
      else Inl IndexError)"

definition call :: "('a list \<Rightarrow> 'a) \<Rightarrow> nat \<Rightarrow> 'a pystate \<Rightarrow> 'a \<times> 'a pystate" where
  \<comment> \<open>\<^verbatim>\<open>func(*l)\<close>: one invocation of \<open>func\<close>, logged\<close>
  "call func l s =
     (let args = list_objs s ! l in (func args, s\<lparr>call_log := call_log s @ [args]\<rparr>))"

fun gradients_loop ::
  "('a list \<Rightarrow> 'a) \<Rightarrow> nat \<Rightarrow> 'a::{zero,plus,minus,inverse} \<Rightarrow> 'a \<Rightarrow> nat list \<Rightarrow> 'a list \<Rightarrow>
   'a pystate \<Rightarrow> (error + 'a list) \<times> 'a pystate" where
  "gradients_loop func vars_list e base_func_eval [] partial_derivatives s =
     (Inr partial_derivatives, s)"
| "gradients_loop func vars_list e base_func_eval (idx # rest) partial_derivatives s =
     (let (tweaked_vars, s1) = slice_copy vars_list s in
      case iadd_item tweaked_vars idx e s1 of
        Inl err \<Rightarrow> (Inl err, s1)
      | Inr s2 \<Rightarrow>
          let (tweaked_func_eval, s3) = call func tweaked_vars s2 in
          if e = 0 then (Inl ZeroDivisionError, s3)
          else gradients_loop func vars_list e base_func_eval rest
                 (partial_derivatives @ [(tweaked_func_eval - base_func_eval) / e]) s3)"

definition gradients ::
  "('a list \<Rightarrow> 'a) \<Rightarrow> nat \<Rightarrow> 'a::{zero,plus,minus,inverse} \<Rightarrow> 'a pystate \<Rightarrow>
   (error + 'a list) \<times> 'a pystate" where
  "gradients func vars_list e s =
     (let (base_func_eval, s1) = call func vars_list s in
      gradients_loop func vars_list e base_func_eval
        [0..<length (list_objs s1 ! vars_list)] [] s1)"

definition gradients_default ::
  "('a list \<Rightarrow> 'a) \<Rightarrow> nat \<Rightarrow> 'a::field pystate \<Rightarrow> (error + 'a list) \<times> 'a pystate" where
  \<comment> \<open>the call \<^verbatim>\<open>gradients(func, vars_list)\<close>, with \<^verbatim>\<open>eps=0.0001\<close>\<close>
  "gradients_default func vars_list s = gradients func vars_list (1 / 10000) s"

definition f_func :: "'a::{plus,times,numeral} list \<Rightarrow> 'a" where
  \<comment> \<open>\<^verbatim>\<open>def f(x,y): return x*x*y + y + 2\<close>, applied to its two unpacked arguments\<close>
  "f_func args = (let x = args ! 0; y = args ! 1 in x * x * y + y + 2)"

section \<open>The computation graph (forward-mode classes)\<close>

text \<open>
  \<^verbatim>\<open>
  class Const(object):
      def __init__(self, value): self.value = value
      def evaluate(self): return self.value
      def __str__(self): return str(self.value)
  class Var(object):
      def __init__(self, name, init_value=0):
          self.value = init_value
          self.name = name
      def evaluate(self): return self.value
      def __str__(self): return self.name
  class BinaryOperator(object):
      def __init__(self, a, b):
          self.a = a
          self.b = b
  class Add(BinaryOperator):
      def evaluate(self): return self.a.evaluate() + self.b.evaluate()
      def __str__(self): return "{} + {}".format(self.a, self.b)
  class Mul(BinaryOperator):
      def evaluate(self): return self.a.evaluate() * self.b.evaluate()
      def __str__(self): return "({}) * ({})".format(self.a, self.b)
  \<close>
  An object is its class and its attributes; the operands \<open>a\<close> and \<open>b\<close> of a binary
  operator are addresses.
\<close>

datatype 'a obj = Const 'a | Var string 'a | Add nat nat | Mul nat nat

type_synonym 'a heap = "'a obj list"

definition new :: "'a obj \<Rightarrow> 'a heap \<Rightarrow> nat \<times> 'a heap" where
  \<comment> \<open>a constructor call: the new object's address, and the heap that holds it\<close>
  "new ob h = (length h, h @ [ob])"

definition set_value :: "nat \<Rightarrow> 'a \<Rightarrow> 'a heap \<Rightarrow> 'a heap" where
  \<comment> \<open>the assignment \<^verbatim>\<open>x.value = v\<close>; on an operator node the attribute is read by no method\<close>
  "set_value x v h =
     (if length h \<le> x then h
      else case h ! x of
        Const c \<Rightarrow> h[x := Const v]
      | Var nm c \<Rightarrow> h[x := Var nm v]
      | Add a b \<Rightarrow> h
      | Mul a b \<Rightarrow> h)"

partial_function (option) evaluate :: "'a::{plus,times} heap \<Rightarrow> nat \<Rightarrow> 'a option" where
  "evaluate h self =
     (if length h \<le> self then None
      else case h ! self of
        Const v \<Rightarrow> Some v
      | Var nm v \<Rightarrow> Some v
      | Add a b \<Rightarrow> do { x \<leftarrow> evaluate h a; y \<leftarrow> evaluate h b; Some (x + y) }
      | Mul a b \<Rightarrow> do { x \<leftarrow> evaluate h a; y \<leftarrow> evaluate h b; Some (x * y) })"

text \<open>
  \<^verbatim>\<open>str(self.value)\<close> is Python's rendering of a number, a parameter of the model;
  \<open>str_int\<close> below is that rendering for an \<^verbatim>\<open>int\<close>.
\<close>

partial_function (option) str :: "('a \<Rightarrow> string) \<Rightarrow> 'a heap \<Rightarrow> nat \<Rightarrow> string option" where
  "str str_value h self =
     (if length h \<le> self then None
      else case h ! self of
        Const v \<Rightarrow> Some (str_value v)
      | Var nm v \<Rightarrow> Some nm
      | Add a b \<Rightarrow> do {
          sa \<leftarrow> str str_value h a;
          sb \<leftarrow> str str_value h b;
          Some (sa @ '' + '' @ sb) }
      | Mul a b \<Rightarrow> do {
          sa \<leftarrow> str str_value h a;
          sb \<leftarrow> str str_value h b;
          Some (''('' @ sa @ '') * ('' @ sb @ '')'') })"

function str_nat :: "nat \<Rightarrow> string" where
  "str_nat n =
     (if n < 10 then [''0123456789'' ! n]
      else str_nat (n div 10) @ [''0123456789'' ! (n mod 10)])"
  by pat_completeness auto
termination
  by (relation "measure id") auto

definition str_int :: "int \<Rightarrow> string" where
  "str_int i = (if i < 0 then CHR ''-'' # str_nat (nat (- i)) else str_nat (nat i))"

text \<open>
  \<^verbatim>\<open>
  Const.gradient = lambda self, var: Const(0)
  Var.gradient = lambda self, var: Const(1) if self is var else Const(0)
  Add.gradient = lambda self, var: Add(self.a.gradient(var), self.b.gradient(var))
  Mul.gradient = lambda self, var: Add(Mul(self.a, self.b.gradient(var)),
                                       Mul(self.a.gradient(var), self.b))
  \<close>
  The arguments of a constructor are evaluated from left to right, each nested
  constructor allocating as soon as its own arguments are there.
\<close>

partial_function (option) gradient ::
  "'a::{zero,one} heap \<Rightarrow> nat \<Rightarrow> nat \<Rightarrow> (nat \<times> 'a heap) option" where
  "gradient h self var =
     (if length h \<le> self then None
      else case h ! self of
        Const v \<Rightarrow> Some (new (Const 0) h)
      | Var nm v \<Rightarrow> Some (if self = var then new (Const 1) h else new (Const 0) h)
      | Add a b \<Rightarrow> do {
          (ga, h1) \<leftarrow> gradient h a var;
          (gb, h2) \<leftarrow> gradient h1 b var;
          Some (new (Add ga gb) h2) }
      | Mul a b \<Rightarrow> do {
          (gb, h1) \<leftarrow> gradient h b var;
          (m1, h2) \<leftarrow> Some (new (Mul a gb) h1);
          (ga, h3) \<leftarrow> gradient h2 a var;
          (m2, h4) \<leftarrow> Some (new (Mul ga b) h3);
          Some (new (Add m1 m2) h4) })"

text \<open>
  \<^verbatim>\<open>
  x = Var(name="x", init_value=3.)
  y = Var(name="y", init_value=4.)
  f = Add(Mul(Mul(x, x), y), Add(y, Const(2))) # f(x,y) = x^2 y + y + 2
  \<close>
  The result is the addresses of \<open>x\<close>, \<open>y\<close> and \<open>f\<close>, and the heap.
\<close>

definition f_graph :: "'a::numeral \<Rightarrow> 'a \<Rightarrow> 'a heap \<Rightarrow> (nat \<times> nat \<times> nat) \<times> 'a heap" where
  "f_graph x0 y0 h0 =
     (let (x, h1) = new (Var ''x'' x0) h0;
          (y, h2) = new (Var ''y'' y0) h1;
          (xx, h3) = new (Mul x x) h2;
          (xxy, h4) = new (Mul xx y) h3;
          (two, h5) = new (Const 2) h4;
          (y2, h6) = new (Add y two) h5;
          (root, h7) = new (Add xxy y2) h6
      in ((x, y, root), h7))"

section \<open>Dual numbers\<close>

text \<open>
  \<^verbatim>\<open>
  class DualNumber(object):
      def __init__(self, value=0.0, eps=0.0):
          self.value = value
          self.eps = eps
      def __add__(self, b):
          return DualNumber(self.value + self.to_dual(b).value,
                            self.eps + self.to_dual(b).eps)
      def __radd__(self, a):
          return self.to_dual(a).__add__(self)
      def __mul__(self, b):
          return DualNumber(self.value * self.to_dual(b).value,
                            self.eps * self.to_dual(b).value + self.value * self.to_dual(b).eps)
      def __rmul__(self, a):
          return self.to_dual(a).__mul__(self)
      @classmethod
      def to_dual(cls, n):
          if hasattr(n, "value"):
              return n
          else:
              return cls(n)
  \<close>
  A Python value in an expression is a bare number or a dual number; only the latter has
  the attribute \<^verbatim>\<open>value\<close>. Dual numbers are immutable values, created per operation.
\<close>

datatype 'a DualNumber = DualNumber (dual_value: 'a) (dual_eps: 'a)

datatype 'a pyval = Num 'a | Dual "'a DualNumber"

fun to_dual :: "'a::zero pyval \<Rightarrow> 'a DualNumber" where
  "to_dual (Dual n) = n"
| "to_dual (Num n) = DualNumber n 0"

definition DualNumber_add :: "'a::{zero,plus} DualNumber \<Rightarrow> 'a pyval \<Rightarrow> 'a DualNumber" where
  "DualNumber_add self b =
     DualNumber (dual_value self + dual_value (to_dual b))
                (dual_eps self + dual_eps (to_dual b))"

definition DualNumber_radd :: "'a::{zero,plus} DualNumber \<Rightarrow> 'a pyval \<Rightarrow> 'a DualNumber" where
  "DualNumber_radd self a = DualNumber_add (to_dual a) (Dual self)"

definition DualNumber_mul :: "'a::{zero,plus,times} DualNumber \<Rightarrow> 'a pyval \<Rightarrow> 'a DualNumber" where
  "DualNumber_mul self b =
     DualNumber (dual_value self * dual_value (to_dual b))
                (dual_eps self * dual_value (to_dual b) + dual_value self * dual_eps (to_dual b))"

definition DualNumber_rmul :: "'a::{zero,plus,times} DualNumber \<Rightarrow> 'a pyval \<Rightarrow> 'a DualNumber" where
  "DualNumber_rmul self a = DualNumber_mul (to_dual a) (Dual self)"

definition get_eps :: "'a pyval \<Rightarrow> 'a option" where
  \<comment> \<open>the attribute read \<^verbatim>\<open>v.eps\<close>: only a dual number has it\<close>
  "get_eps v = (case v of Dual d \<Rightarrow> Some (dual_eps d) | Num n \<Rightarrow> None)"

text \<open>
  Python's \<^verbatim>\<open>a + b\<close> and \<^verbatim>\<open>a * b\<close>: the left operand's method when it is a dual
  number; the right operand's reflected method when only that one is a dual number (the
  number's own method returns \<^verbatim>\<open>NotImplemented\<close>); the numbers' arithmetic otherwise.
  A numeric literal is a bare number.
\<close>

instantiation pyval :: (zero) zero
begin
definition zero_pyval :: "'a pyval" where
  "zero_pyval = Num 0"
instance ..
end

instantiation pyval :: (one) one
begin
definition one_pyval :: "'a pyval" where
  "one_pyval = Num 1"
instance ..
end

instantiation pyval :: (monoid_add) plus
begin
definition plus_pyval :: "'a pyval \<Rightarrow> 'a pyval \<Rightarrow> 'a pyval" where
  "plus_pyval a b =
     (case a of
        Dual d \<Rightarrow> Dual (DualNumber_add d b)
      | Num x \<Rightarrow> (case b of Dual d \<Rightarrow> Dual (DualNumber_radd d a) | Num y \<Rightarrow> Num (x + y)))"
instance ..
end

instantiation pyval :: (semiring_0) times
begin
definition times_pyval :: "'a pyval \<Rightarrow> 'a pyval \<Rightarrow> 'a pyval" where
  "times_pyval a b =
     (case a of
        Dual d \<Rightarrow> Dual (DualNumber_mul d b)
      | Num x \<Rightarrow> (case b of Dual d \<Rightarrow> Dual (DualNumber_rmul d a) | Num y \<Rightarrow> Num (x * y)))"
instance ..
end

instance pyval :: (monoid_add) semigroup_add
proof
  fix a b c :: "'a pyval"
  show "a + b + c = a + (b + c)"
    by (cases a; cases b; cases c)
      (simp_all add: plus_pyval_def DualNumber_add_def DualNumber_radd_def add.assoc)
qed

instance pyval :: (semiring_1) numeral ..

section \<open>The computation graph (reverse-mode classes)\<close>

text \<open>
  \<^verbatim>\<open>
  class Const(object):
      def __init__(self, value): self.value = value
      def evaluate(self): return self.value
      def backpropagate(self, gradient): pass
      def __str__(self): return str(self.value)
  class Var(object):
      def __init__(self, name, init_value=0):
          self.value = init_value
          self.name = name
          self.gradient = 0
      def evaluate(self): return self.value
      def backpropagate(self, gradient): self.gradient += gradient
      def __str__(self): return self.name
  class BinaryOperator(object):
      def __init__(self, a, b):
          self.a = a
          self.b = b
  class Add(BinaryOperator):
      def evaluate(self):
          self.value = self.a.evaluate() + self.b.evaluate()
          return self.value
      def backpropagate(self, gradient):
          self.a.backpropagate(gradient)
          self.b.backpropagate(gradient)
      def __str__(self): return "{} + {}".format(self.a, self.b)
  class Mul(BinaryOperator):
      def evaluate(self):
          self.value = self.a.evaluate() * self.b.evaluate()
          return self.value
      def backpropagate(self, gradient):
          self.a.backpropagate(gradient * self.b.value)
          self.b.backpropagate(gradient * self.a.value)
      def __str__(self): return "({}) * ({})".format(self.a, self.b)
  \<close>
  The notebook defines the classes a second time; this version's names carry an \<open>R\<close>.
  A variable has the attributes name, value and gradient. An operator node has the
  attribute \<^verbatim>\<open>value\<close> only once \<^verbatim>\<open>evaluate\<close> has stored it: \<open>None\<close> before.
\<close>

datatype 'a objR =
    ConstR 'a
  | VarR string 'a 'a
  | AddR nat nat "'a option"
  | MulR nat nat "'a option"

type_synonym 'a heapR = "'a objR list"

definition newR :: "'a objR \<Rightarrow> 'a heapR \<Rightarrow> nat \<times> 'a heapR" where
  "newR ob h = (length h, h @ [ob])"

definition Var_init :: "string \<Rightarrow> 'a::zero \<Rightarrow> 'a heapR \<Rightarrow> nat \<times> 'a heapR" where
  \<comment> \<open>\<^verbatim>\<open>Var(name, init_value)\<close>\<close>
  "Var_init name init_value h = newR (VarR name init_value 0) h"

definition BinaryOperator_init ::
  "(nat \<Rightarrow> nat \<Rightarrow> 'a option \<Rightarrow> 'a objR) \<Rightarrow> nat \<Rightarrow> nat \<Rightarrow> 'a heapR \<Rightarrow> nat \<times> 'a heapR" where
  \<comment> \<open>\<^verbatim>\<open>Add(a, b)\<close> and \<^verbatim>\<open>Mul(a, b)\<close>: no attribute \<^verbatim>\<open>value\<close> yet\<close>
  "BinaryOperator_init cls a b h = newR (cls a b None) h"

definition get_value :: "'a heapR \<Rightarrow> nat \<Rightarrow> 'a option" where
  \<comment> \<open>the attribute read \<^verbatim>\<open>n.value\<close>\<close>
  "get_value h n =
     (if length h \<le> n then None
      else case h ! n of
        ConstR v \<Rightarrow> Some v
      | VarR nm v g \<Rightarrow> Some v
      | AddR a b c \<Rightarrow> c
      | MulR a b c \<Rightarrow> c)"

definition set_valueR :: "nat \<Rightarrow> 'a \<Rightarrow> 'a heapR \<Rightarrow> 'a heapR" where
  \<comment> \<open>the attribute write \<^verbatim>\<open>n.value = v\<close>\<close>
  "set_valueR n v h =
     (if length h \<le> n then h
      else case h ! n of
        ConstR c \<Rightarrow> h[n := ConstR v]
      | VarR nm c g \<Rightarrow> h[n := VarR nm v g]
      | AddR a b c \<Rightarrow> h[n := AddR a b (Some v)]
      | MulR a b c \<Rightarrow> h[n := MulR a b (Some v)])"

definition get_gradient :: "'a heapR \<Rightarrow> nat \<Rightarrow> 'a option" where
  \<comment> \<open>the attribute read \<^verbatim>\<open>x.gradient\<close>: only a variable has it\<close>
  "get_gradient h x =
     (if length h \<le> x then None
      else case h ! x of VarR nm v g \<Rightarrow> Some g | _ \<Rightarrow> None)"

partial_function (option) evaluateR ::
  "'a::{plus,times} heapR \<Rightarrow> nat \<Rightarrow> ('a \<times> 'a heapR) option" where
  "evaluateR h self =
     (if length h \<le> self then None
      else case h ! self of
        ConstR v \<Rightarrow> Some (v, h)
      | VarR nm v g \<Rightarrow> Some (v, h)
      | AddR a b c \<Rightarrow> do {
          (x, h1) \<leftarrow> evaluateR h a;
          (y, h2) \<leftarrow> evaluateR h1 b;
          Some (x + y, set_valueR self (x + y) h2) }
      | MulR a b c \<Rightarrow> do {
          (x, h1) \<leftarrow> evaluateR h a;
          (y, h2) \<leftarrow> evaluateR h1 b;
          Some (x * y, set_valueR self (x * y) h2) })"

partial_function (option) backpropagate ::
  "'a::{plus,times} heapR \<Rightarrow> nat \<Rightarrow> 'a \<Rightarrow> 'a heapR option" where
  "backpropagate h self grad =
     (if length h \<le> self then None
      else case h ! self of
        ConstR v \<Rightarrow> Some h
      | VarR nm v g \<Rightarrow> Some (h[self := VarR nm v (g + grad)])
      | AddR a b c \<Rightarrow> do {
          h1 \<leftarrow> backpropagate h a grad;
          backpropagate h1 b grad }
      | MulR a b c \<Rightarrow> do {
          bv \<leftarrow> get_value h b;
          h1 \<leftarrow> backpropagate h a (grad * bv);
          av \<leftarrow> get_value h1 a;
          backpropagate h1 b (grad * av) })"

partial_function (option) strR :: "('a \<Rightarrow> string) \<Rightarrow> 'a heapR \<Rightarrow> nat \<Rightarrow> string option" where
  "strR str_value h self =
     (if length h \<le> self then None
      else case h ! self of
        ConstR v \<Rightarrow> Some (str_value v)
      | VarR nm v g \<Rightarrow> Some nm
      | AddR a b c \<Rightarrow> do {
          sa \<leftarrow> strR str_value h a;
          sb \<leftarrow> strR str_value h b;
          Some (sa @ '' + '' @ sb) }
      | MulR a b c \<Rightarrow> do {
          sa \<leftarrow> strR str_value h a;
          sb \<leftarrow> strR str_value h b;
          Some (''('' @ sa @ '') * ('' @ sb @ '')'') })"

text \<open>
  \<^verbatim>\<open>
  x = Var("x", init_value=3)
  y = Var("y", init_value=4)
  f = Add(Mul(Mul(x, x), y), Add(y, Const(2))) # f(x,y) = x^2 y + y + 2
  \<close>
\<close>

definition f_graphR ::
  "'a::{zero,numeral} \<Rightarrow> 'a \<Rightarrow> 'a heapR \<Rightarrow> (nat \<times> nat \<times> nat) \<times> 'a heapR" where
  "f_graphR x0 y0 h0 =
     (let (x, h1) = Var_init ''x'' x0 h0;
          (y, h2) = Var_init ''y'' y0 h1;
          (xx, h3) = BinaryOperator_init MulR x x h2;
          (xxy, h4) = BinaryOperator_init MulR xx y h3;
          (two, h5) = newR (ConstR 2) h4;
          (y2, h6) = BinaryOperator_init AddR y two h5;
          (root, h7) = BinaryOperator_init AddR xxy y2 h6
      in ((x, y, root), h7))"

section \<open>Notions used in the statements\<close>

text \<open>The point \<open>xs\<close> with its element \<open>idx\<close> increased by \<open>e\<close>.\<close>

definition tweaked :: "'a::plus list \<Rightarrow> nat \<Rightarrow> 'a \<Rightarrow> 'a list" where
  "tweaked xs idx e = xs[idx := xs ! idx + e]"

text \<open>
  A heap is well formed when every operand of a node is an older object than the node:
  what constructor calls produce, since the operands of a node exist before the node and
  no method assigns to \<^verbatim>\<open>a\<close> or \<^verbatim>\<open>b\<close>.
\<close>

fun refs :: "'a obj \<Rightarrow> nat list" where
  "refs (Const v) = []"
| "refs (Var nm v) = []"
| "refs (Add a b) = [a, b]"
| "refs (Mul a b) = [a, b]"

definition wf_heap :: "'a heap \<Rightarrow> bool" where
  "wf_heap h = (\<forall>i \<in> set [0..<length h]. \<forall>r \<in> set (refs (h ! i)). r < i)"

text \<open>
  A binding of the variables assigns a value to every variable of the heap
  (\<^verbatim>\<open>x.value = ...\<close> for each of them). \<open>agrees h k\<close>: the heap \<open>k\<close> holds, at every
  address of \<open>h\<close>, the object of \<open>h\<close> up to the value of a variable.
\<close>

fun rebound :: "'a obj \<Rightarrow> 'a obj \<Rightarrow> bool" where
  "rebound (Var nm v) ob = (\<exists>w. ob = Var nm w)"
| "rebound ob ob' = (ob = ob')"

definition agrees :: "'a heap \<Rightarrow> 'a heap \<Rightarrow> bool" where
  "agrees h k = (length h \<le> length k \<and> (\<forall>i<length h. rebound (h ! i) (k ! i)))"

definition rebind :: "(nat \<Rightarrow> 'a) \<Rightarrow> 'a heap \<Rightarrow> 'a heap" where
  "rebind \<beta> h =
     map (\<lambda>i. case h ! i of Var nm v \<Rightarrow> Var nm (\<beta> i) | ob \<Rightarrow> ob) [0..<length h]"

text \<open>The nodes reachable from a node through operand references.\<close>

inductive reach :: "'a heap \<Rightarrow> nat \<Rightarrow> nat \<Rightarrow> bool" for h :: "'a heap" where
  reach_self: "reach h n n"
| reach_child: "n < length h \<Longrightarrow> c \<in> set (refs (h ! n)) \<Longrightarrow> reach h c r \<Longrightarrow> reach h n r"

text \<open>
  The value of the derivative of node \<open>self\<close> with respect to the variable \<open>var\<close>, by the
  sum and product rules on the values in the heap (used in proofs only).
\<close>

function dval :: "'a::{zero,one,plus,times} heap \<Rightarrow> nat \<Rightarrow> nat \<Rightarrow> 'a" where
  "dval k self var =
     (if length k \<le> self then 0
      else case k ! self of
        Const v \<Rightarrow> 0
      | Var nm v \<Rightarrow> (if self = var then 1 else 0)
      | Add a b \<Rightarrow> (if a < self \<and> b < self then dval k a var + dval k b var else 0)
      | Mul a b \<Rightarrow>
          (if a < self \<and> b < self
           then the (evaluate k a) * dval k b var + dval k a var * the (evaluate k b)
           else 0))"
  by pat_completeness auto
termination
  by (relation "measure (\<lambda>(k, self, var). self)") auto

declare dval.simps [simp del]

text \<open>
  A reverse-mode object without its gradient and its stored value: the forward-mode
  object of the same class. The value of a reverse-mode node is what \<open>evaluate\<close> gives
  on the erased heap.
\<close>

fun erase :: "'a objR \<Rightarrow> 'a obj" where
  "erase (ConstR v) = Const v"
| "erase (VarR nm v g) = Var nm v"
| "erase (AddR a b c) = Add a b"
| "erase (MulR a b c) = Mul a b"

text \<open>
  The notebook's cells that use the classes, as programs. Cells 32 to 34 build the graph
  with the default initial values and assign \<^verbatim>\<open>x.value\<close> and \<^verbatim>\<open>y.value\<close>; cells 48 to 52
  take the gradients and the gradients of the gradients; cells 64 to 68 evaluate with dual
  numbers; cell 73 evaluates and backpropagates.
\<close>

definition evaluate_session :: "'a::{zero,plus,times,numeral} \<Rightarrow> 'a \<Rightarrow> 'a option" where
  "evaluate_session x0 y0 =
     (let ((x, y, root), h0) = f_graph 0 0 [];
          h1 = set_value x x0 h0;
          h2 = set_value y y0 h1
      in evaluate h2 root)"

definition forward_session ::
  "'a::{zero,one,plus,times,numeral} \<Rightarrow> 'a \<Rightarrow> ('a list \<times> 'a list list) option" where
  "forward_session x0 y0 =
    (let ((x, y, root), h) = f_graph x0 y0 [] in do {
       (dfdx, h1) \<leftarrow> gradient h root x;
       (dfdy, h2) \<leftarrow> gradient h1 root y;
       vx \<leftarrow> evaluate h2 dfdx;
       vy \<leftarrow> evaluate h2 dfdy;
       (d2fdxdx, h3) \<leftarrow> gradient h2 dfdx x;
       (d2fdxdy, h4) \<leftarrow> gradient h3 dfdx y;
       (d2fdydx, h5) \<leftarrow> gradient h4 dfdy x;
       (d2fdydy, h6) \<leftarrow> gradient h5 dfdy y;
       vxx \<leftarrow> evaluate h6 d2fdxdx;
       vxy \<leftarrow> evaluate h6 d2fdxdy;
       vyx \<leftarrow> evaluate h6 d2fdydx;
       vyy \<leftarrow> evaluate h6 d2fdydy;
       Some ([vx, vy], [[vxx, vxy], [vyx, vyy]]) })"

definition dual_session :: "'a::semiring_1 \<Rightarrow> 'a \<Rightarrow> ('a pyval \<times> 'a \<times> 'a) option" where
  "dual_session x0 y0 =
    (let ((x, y, root), h) = f_graph (Num x0) (Num y0) [] in do {
       let h1 = set_value y (Dual (DualNumber y0 0)) (set_value x (Dual (DualNumber x0 0)) h);
       v \<leftarrow> evaluate h1 root;
       let h2 = set_value y (Dual (DualNumber y0 0)) (set_value x (Dual (DualNumber x0 1)) h1);
       r2 \<leftarrow> evaluate h2 root;
       dfdx \<leftarrow> get_eps r2;
       let h3 = set_value y (Dual (DualNumber y0 1)) (set_value x (Dual (DualNumber x0 0)) h2);
       r3 \<leftarrow> evaluate h3 root;
       dfdy \<leftarrow> get_eps r3;
       Some (v, dfdx, dfdy) })"

definition reverse_session :: "'a::{zero,plus,times,numeral} \<Rightarrow> 'a \<Rightarrow> 'a \<Rightarrow> ('a \<times> 'a \<times> 'a) option" where
  "reverse_session x0 y0 seed =
    (let ((x, y, root), h) = f_graphR x0 y0 [] in do {
       (result, h1) \<leftarrow> evaluateR h root;
       h2 \<leftarrow> backpropagate h1 root seed;
       gx \<leftarrow> get_gradient h2 x;
       gy \<leftarrow> get_gradient h2 y;
       Some (result, gx, gy) })"

definition evaluateR_session :: "'a::{zero,plus,times,numeral} \<Rightarrow> 'a \<Rightarrow> 'a option" where
  "evaluateR_session x0 y0 =
    (let ((x, y, root), h) = f_graphR x0 y0 [] in map_option fst (evaluateR h root))"

definition square_session :: "'a::{zero,plus,times} \<Rightarrow> 'a \<Rightarrow> 'a option" where
  "square_session x0 seed =
    (let (x, h1) = Var_init ''x'' x0 [];
         (xx, h2) = BinaryOperator_init MulR x x h1
     in do {
       (result, h3) \<leftarrow> evaluateR h2 xx;
       h4 \<leftarrow> backpropagate h3 xx seed;
       get_gradient h4 x })"


text \<open>Cell 74, \<^verbatim>\<open>print(f)\<close>, on both versions of the classes.\<close>

definition str_session :: "string option \<times> string option" where
  "str_session =
     (let ((x, y, root), h) = f_graph (3::int) 4 [];
          ((xR, yR, rootR), hR) = f_graphR (3::int) 4 []
      in (str str_int h root, strR str_int hR rootR))"

text \<open>
  The sums \<open>(x + y) + z\<close> (node 4) and \<open>x + (y + z)\<close> (node 6), in both versions of the
  classes.
\<close>

definition sums_heap :: "int heap" where
  "sums_heap = [Var ''x'' 0, Var ''y'' 0, Var ''z'' 0, Add 0 1, Add 3 2, Add 1 2, Add 0 5]"

definition sums_heapR :: "int heapR" where
  "sums_heapR =
     [VarR ''x'' 0 0, VarR ''y'' 0 0, VarR ''z'' 0 0,
      AddR 0 1 None, AddR 3 2 None, AddR 1 2 None, AddR 0 5 None]"

declare evaluate.simps [code]
declare gradient.simps [code]
declare str.simps [code]
declare evaluateR.simps [code]
declare backpropagate.simps [code]
declare strR.simps [code]
declare str_nat.simps [simp del]

section \<open>Lemmas\<close>

subsection \<open>The finite-difference loop\<close>

lemma gradients_loop_ok:
  assumes "l < length (list_objs s)" and "e \<noteq> 0"
    and "\<forall>i \<in> set idxs. i < length (list_objs s ! l)"
  shows "gradients_loop func l e base idxs pds s =
     (Inr (pds @ map (\<lambda>i. (func (tweaked (list_objs s ! l) i e) - base) / e) idxs),
      s\<lparr>list_objs := list_objs s @ map (\<lambda>i. tweaked (list_objs s ! l) i e) idxs,
        call_log := call_log s @ map (\<lambda>i. tweaked (list_objs s ! l) i e) idxs\<rparr>)"
  using assms
proof (induction idxs arbitrary: pds s)
  case Nil
  then show ?case by simp
next
  case (Cons idx rest)
  let ?xs = "list_objs s ! l"
  let ?s3 = "s\<lparr>list_objs := list_objs s @ [tweaked ?xs idx e],
               call_log := call_log s @ [tweaked ?xs idx e]\<rparr>"
  have idx: "idx < length ?xs"
    using Cons.prems by simp
  have l3: "l < length (list_objs ?s3)" "list_objs ?s3 ! l = ?xs"
    using Cons.prems by (simp_all add: nth_append)
  have rest: "\<forall>i \<in> set rest. i < length (list_objs ?s3 ! l)"
    using Cons.prems l3 by simp
  have step: "gradients_loop func l e base (idx # rest) pds s =
      gradients_loop func l e base rest (pds @ [(func (tweaked ?xs idx e) - base) / e]) ?s3"
    using idx \<open>e \<noteq> 0\<close>
    by (simp add: slice_copy_def iadd_item_def call_def tweaked_def Let_def)
  show ?case
    unfolding step Cons.IH [OF l3(1) \<open>e \<noteq> 0\<close> rest] l3(2) by simp
qed

lemma gradients_ok:
  assumes "l < length (list_objs s)" and "e \<noteq> 0"
  shows "gradients func l e s =
     (Inr (map (\<lambda>i. (func (tweaked (list_objs s ! l) i e) - func (list_objs s ! l)) / e)
             [0..<length (list_objs s ! l)]),
      s\<lparr>list_objs := list_objs s @
           map (\<lambda>i. tweaked (list_objs s ! l) i e) [0..<length (list_objs s ! l)],
        call_log := call_log s @ list_objs s ! l #
           map (\<lambda>i. tweaked (list_objs s ! l) i e) [0..<length (list_objs s ! l)]\<rparr>)"
proof -
  let ?s1 = "s\<lparr>call_log := call_log s @ [list_objs s ! l]\<rparr>"
  have "gradients func l e s =
      gradients_loop func l e (func (list_objs s ! l)) [0..<length (list_objs ?s1 ! l)] [] ?s1"
    by (simp add: gradients_def call_def Let_def)
  also have "\<dots> =
     (Inr ([] @ map (\<lambda>i. (func (tweaked (list_objs ?s1 ! l) i e) - func (list_objs s ! l)) / e)
             [0..<length (list_objs ?s1 ! l)]),
      ?s1\<lparr>list_objs := list_objs ?s1 @
           map (\<lambda>i. tweaked (list_objs ?s1 ! l) i e) [0..<length (list_objs ?s1 ! l)],
        call_log := call_log ?s1 @
           map (\<lambda>i. tweaked (list_objs ?s1 ! l) i e) [0..<length (list_objs ?s1 ! l)]\<rparr>)"
    using assms by (intro gradients_loop_ok) simp_all
  finally show ?thesis
    by simp
qed

lemma gradients_loop_frame:
  "take (length (list_objs s)) (list_objs (snd (gradients_loop func l e base idxs pds s))) =
   list_objs s"
proof (induction idxs arbitrary: pds s)
  case Nil
  then show ?case by simp
next
  case (Cons idx rest)
  let ?n = "length (list_objs s)"
  let ?s1 = "s\<lparr>list_objs := list_objs s @ [list_objs s ! l]\<rparr>"
  show ?case
  proof (cases "iadd_item ?n idx e ?s1")
    case (Inl err)
    then show ?thesis
      by (simp add: slice_copy_def)
  next
    case (Inr s2)
    then obtain ys where s2: "list_objs s2 = list_objs s @ [ys]"
      by (auto simp: iadd_item_def Let_def split: if_splits)
    obtain v s3 where c: "call func ?n s2 = (v, s3)"
      by force
    have l3: "list_objs s3 = list_objs s @ [ys]"
      using s2 c by (auto simp: call_def Let_def)
    show ?thesis
    proof (cases "e = 0")
      case True
      with Inr c l3 show ?thesis
        by (simp add: slice_copy_def)
    next
      case False
      have "take ?n (list_objs (snd (gradients_loop func l e base rest
              (pds @ [(v - base) / e]) s3))) =
            take ?n (take (length (list_objs s3)) (list_objs (snd (gradients_loop func l e
              base rest (pds @ [(v - base) / e]) s3))))"
        using l3 by simp
      also have "\<dots> = take ?n (list_objs s3)"
        by (simp only: Cons.IH)
      also have "\<dots> = list_objs s"
        using l3 by simp
      finally show ?thesis
        using Inr c False by (simp add: slice_copy_def)
    qed
  qed
qed

lemma gradients_frame:
  "take (length (list_objs s)) (list_objs (snd (gradients func l e s))) = list_objs s"
proof -
  let ?s1 = "snd (call func l s)"
  have eq: "list_objs ?s1 = list_objs s"
    by (simp add: call_def Let_def)
  have "take (length (list_objs ?s1)) (list_objs (snd (gradients func l e s))) = list_objs ?s1"
    unfolding gradients_def by (simp add: gradients_loop_frame split: prod.splits)
  then show ?thesis
    by (simp add: eq)
qed

subsection \<open>Well-formed heaps\<close>

lemma wf_heapD: "wf_heap h \<Longrightarrow> i < length h \<Longrightarrow> r \<in> set (refs (h ! i)) \<Longrightarrow> r < i"
  by (auto simp: wf_heap_def)

lemma wf_heap_snoc:
  "wf_heap h \<Longrightarrow> (\<forall>r \<in> set (refs ob). r < length h) \<Longrightarrow> wf_heap (h @ [ob])"
  by (auto simp: wf_heap_def nth_append)

text \<open>
  The empty heap is well formed, and constructor calls and assignments to \<^verbatim>\<open>value\<close>
  keep a heap well formed: the heaps a client can build are well formed.
\<close>

lemma wf_heap_Nil: "wf_heap []"
  by (simp add: wf_heap_def)

lemma wf_heap_new:
  "wf_heap h \<Longrightarrow> \<forall>r \<in> set (refs ob). r < length h \<Longrightarrow> wf_heap (snd (new ob h))"
  by (simp add: new_def wf_heap_snoc)

lemma refs_set_value: "i < length h \<Longrightarrow> refs (set_value x v h ! i) = refs (h ! i)"
  by (auto simp: set_value_def nth_list_update split: obj.splits)

lemma length_set_value: "length (set_value x v h) = length h"
  by (simp add: set_value_def split: obj.splits)

lemma wf_heap_set_value: "wf_heap h \<Longrightarrow> wf_heap (set_value x v h)"
  by (simp add: wf_heap_def length_set_value refs_set_value)

lemma wf_heap_f_graph: "wf_heap (snd (f_graph x0 y0 []))"
  by (simp add: f_graph_def new_def wf_heap_def upt_rec [of 0] upt_rec [of 1] upt_rec [of 2]
      upt_rec [of 3] upt_rec [of 4] upt_rec [of 5] upt_rec [of 6] upt_rec [of 7])

lemma agrees_append: "agrees (h @ ext) k \<Longrightarrow> agrees h k"
  by (auto simp: agrees_def nth_append split: if_splits) 

lemma agrees_nth:
  "agrees h k \<Longrightarrow> i < length h \<Longrightarrow> rebound (h ! i) (k ! i)"
  by (simp add: agrees_def)

lemma rebound_refs: "rebound ob ob' \<Longrightarrow> refs ob' = refs ob"
  by (cases ob) auto

subsection \<open>Evaluation on a well-formed heap\<close>

lemma evaluate_total:
  "wf_heap k \<Longrightarrow> n < length k \<Longrightarrow> \<exists>v. evaluate k n = Some v"
proof (induction n rule: less_induct)
  case (less n)
  show ?case
  proof (cases "k ! n")
    case (Const v)
    with less.prems show ?thesis by (subst evaluate.simps) simp
  next
    case (Var nm v)
    with less.prems show ?thesis by (subst evaluate.simps) simp
  next
    case (Add a b)
    with less.prems have "a < n" "b < n" by (auto dest: wf_heapD)
    with less obtain x y where "evaluate k a = Some x" "evaluate k b = Some y"
      by (metis less_trans)
    with Add less.prems show ?thesis by (subst evaluate.simps) simp
  next
    case (Mul a b)
    with less.prems have "a < n" "b < n" by (auto dest: wf_heapD)
    with less obtain x y where "evaluate k a = Some x" "evaluate k b = Some y"
      by (metis less_trans)
    with Mul less.prems show ?thesis by (subst evaluate.simps) simp
  qed
qed

lemma evaluate_append:
  "wf_heap h \<Longrightarrow> n < length h \<Longrightarrow> evaluate (h @ ext) n = evaluate h n"
proof (induction n rule: less_induct)
  case (less n)
  show ?case
  proof (cases "h ! n")
    case (Const v)
    with less.prems show ?thesis
      by (subst evaluate.simps, subst (2) evaluate.simps) (simp add: nth_append)
  next
    case (Var nm v)
    with less.prems show ?thesis
      by (subst evaluate.simps, subst (2) evaluate.simps) (simp add: nth_append)
  next
    case (Add a b)
    with less.prems have "a < n" "b < n" by (auto dest: wf_heapD)
    with less have "evaluate (h @ ext) a = evaluate h a" "evaluate (h @ ext) b = evaluate h b"
      by auto
    with Add less.prems show ?thesis
      by (subst evaluate.simps, subst (3) evaluate.simps) (simp add: nth_append)
  next
    case (Mul a b)
    with less.prems have "a < n" "b < n" by (auto dest: wf_heapD)
    with less have "evaluate (h @ ext) a = evaluate h a" "evaluate (h @ ext) b = evaluate h b"
      by auto
    with Mul less.prems show ?thesis
      by (subst evaluate.simps, subst (3) evaluate.simps) (simp add: nth_append)
  qed
qed


subsection \<open>The gradient graph and its value\<close>

lemma evaluate_Const: "n < length h \<Longrightarrow> h ! n = Const v \<Longrightarrow> evaluate h n = Some v"
  by (subst evaluate.simps) simp

lemma evaluate_Var: "n < length h \<Longrightarrow> h ! n = Var nm v \<Longrightarrow> evaluate h n = Some v"
  by (subst evaluate.simps) simp

lemma evaluate_Add:
  "n < length h \<Longrightarrow> h ! n = Add a b \<Longrightarrow>
   evaluate h n = do { x \<leftarrow> evaluate h a; y \<leftarrow> evaluate h b; Some (x + y) }"
  by (subst evaluate.simps) simp

lemma evaluate_Mul:
  "n < length h \<Longrightarrow> h ! n = Mul a b \<Longrightarrow>
   evaluate h n = do { x \<leftarrow> evaluate h a; y \<leftarrow> evaluate h b; Some (x * y) }"
  by (subst evaluate.simps) simp

lemma gradient_Const:
  "n < length h \<Longrightarrow> h ! n = Const v \<Longrightarrow> gradient h n var = Some (length h, h @ [Const 0])"
  by (subst gradient.simps) (simp add: new_def)

lemma gradient_Var:
  "n < length h \<Longrightarrow> h ! n = Var nm v \<Longrightarrow>
   gradient h n var = Some (length h, h @ [Const (if n = var then 1 else 0)])"
  by (subst gradient.simps) (simp add: new_def)

lemma gradient_Add:
  "n < length h \<Longrightarrow> h ! n = Add a b \<Longrightarrow>
   gradient h a var = Some (ga, h1) \<Longrightarrow> gradient h1 b var = Some (gb, h2) \<Longrightarrow>
   gradient h n var = Some (length h2, h2 @ [Add ga gb])"
  by (subst gradient.simps) (simp add: new_def)

lemma gradient_Mul:
  "n < length h \<Longrightarrow> h ! n = Mul a b \<Longrightarrow>
   gradient h b var = Some (gb, h1) \<Longrightarrow> gradient (h1 @ [Mul a gb]) a var = Some (ga, h3) \<Longrightarrow>
   gradient h n var = Some (Suc (length h3), h3 @ [Mul ga b, Add (length h1) (length h3)])"
  by (subst gradient.simps) (simp add: new_def)

lemma dval_Const: "n < length k \<Longrightarrow> k ! n = Const v \<Longrightarrow> dval k n var = 0"
  by (subst dval.simps) simp

lemma dval_Var:
  "n < length k \<Longrightarrow> k ! n = Var nm v \<Longrightarrow> dval k n var = (if n = var then 1 else 0)"
  by (subst dval.simps) simp

lemma dval_Add:
  "n < length k \<Longrightarrow> k ! n = Add a b \<Longrightarrow> a < n \<Longrightarrow> b < n \<Longrightarrow>
   dval k n var = dval k a var + dval k b var"
  by (subst dval.simps) simp

lemma dval_Mul:
  "n < length k \<Longrightarrow> k ! n = Mul a b \<Longrightarrow> a < n \<Longrightarrow> b < n \<Longrightarrow>
   dval k n var = the (evaluate k a) * dval k b var + dval k a var * the (evaluate k b)"
  by (subst dval.simps) simp

lemma agrees_Const: "agrees h k \<Longrightarrow> i < length h \<Longrightarrow> h ! i = Const v \<Longrightarrow> k ! i = Const v"
  by (auto simp: agrees_def dest!: spec [of _ i])

lemma agrees_Add: "agrees h k \<Longrightarrow> i < length h \<Longrightarrow> h ! i = Add a b \<Longrightarrow> k ! i = Add a b"
  by (auto simp: agrees_def dest!: spec [of _ i])

lemma agrees_Mul: "agrees h k \<Longrightarrow> i < length h \<Longrightarrow> h ! i = Mul a b \<Longrightarrow> k ! i = Mul a b"
  by (auto simp: agrees_def dest!: spec [of _ i])

lemma agrees_Var:
  "agrees h k \<Longrightarrow> i < length h \<Longrightarrow> h ! i = Var nm v \<Longrightarrow> \<exists>w. k ! i = Var nm w"
  by (auto simp: agrees_def dest!: spec [of _ i])

lemma agrees_length: "agrees h k \<Longrightarrow> i < length h \<Longrightarrow> i < length k"
  by (simp add: agrees_def)

lemma gradient_sem:
  fixes h :: "'a::{zero,one,plus,times} heap"
  assumes "wf_heap h" and "self < length h"
  shows "\<exists>g ext. gradient h self var = Some (g, h @ ext) \<and> wf_heap (h @ ext) \<and>
           g < length (h @ ext) \<and>
           (\<forall>k. wf_heap k \<longrightarrow> agrees (h @ ext) k \<longrightarrow> evaluate k g = Some (dval k self var))"
  using assms
proof (induction self arbitrary: h rule: less_induct)
  case (less self)
  note wf = \<open>wf_heap h\<close> and self = \<open>self < length h\<close>
  show ?case
  proof (cases "h ! self")
    case (Const v)
    let ?ext = "[Const 0 :: 'a obj]"
    have g: "gradient h self var = Some (length h, h @ ?ext)"
      using self Const by (rule gradient_Const)
    have w: "wf_heap (h @ ?ext)"
      using wf by (rule wf_heap_snoc) simp
    have "evaluate k (length h) = Some (dval k self var)" if "agrees (h @ ?ext) k" for k
    proof -
      have "k ! length h = Const 0" "length h < length k"
        using that agrees_Const [of "h @ ?ext" k "length h" 0]
          agrees_length [of "h @ ?ext" k "length h"] by simp_all
      moreover have "k ! self = Const v" "self < length k"
        using that self Const agrees_Const [of "h @ ?ext" k self v]
          agrees_length [of "h @ ?ext" k self] by (simp_all add: nth_append)
      ultimately show ?thesis
        by (simp add: evaluate_Const dval_Const)
    qed
    with g w show ?thesis
      by (intro exI [of _ "length h"] exI [of _ ?ext]) simp
  next
    case (Var nm v)
    let ?c = "if self = var then 1 else 0 :: 'a"
    let ?ext = "[Const ?c]"
    have g: "gradient h self var = Some (length h, h @ ?ext)"
      using self Var by (rule gradient_Var)
    have w: "wf_heap (h @ ?ext)"
      using wf by (rule wf_heap_snoc) simp
    have "evaluate k (length h) = Some (dval k self var)" if "agrees (h @ ?ext) k" for k
    proof -
      have "k ! length h = Const ?c" "length h < length k"
        using that agrees_Const [of "h @ ?ext" k "length h" ?c]
          agrees_length [of "h @ ?ext" k "length h"] by simp_all
      moreover have "\<exists>w. k ! self = Var nm w" "self < length k"
        using that self Var agrees_Var [of "h @ ?ext" k self nm v]
          agrees_length [of "h @ ?ext" k self] by (simp_all add: nth_append)
      ultimately show ?thesis
        by (auto simp: evaluate_Const dval_Var)
    qed
    with g w show ?thesis
      by (intro exI [of _ "length h"] exI [of _ ?ext]) simp
  next
    case (Add a b)
    have ab: "a < self" "b < self"
      using wf self Add by (auto dest: wf_heapD)
    from less.IH [OF ab(1) wf] ab self obtain ga e1 where
      ga: "gradient h a var = Some (ga, h @ e1)" "wf_heap (h @ e1)" "ga < length (h @ e1)"
        "\<And>k. wf_heap k \<Longrightarrow> agrees (h @ e1) k \<Longrightarrow> evaluate k ga = Some (dval k a var)"
      by (metis less_trans)
    have "b < length (h @ e1)"
      using ab self by simp
    from less.IH [OF ab(2) ga(2) this] obtain gb e2 where
      gb: "gradient (h @ e1) b var = Some (gb, (h @ e1) @ e2)" "wf_heap ((h @ e1) @ e2)"
        "gb < length ((h @ e1) @ e2)"
        "\<And>k. wf_heap k \<Longrightarrow> agrees ((h @ e1) @ e2) k \<Longrightarrow> evaluate k gb = Some (dval k b var)"
      by blast
    let ?h2 = "(h @ e1) @ e2"
    let ?ext = "e1 @ e2 @ [Add ga gb]"
    have g: "gradient h self var = Some (length ?h2, ?h2 @ [Add ga gb])"
      using self Add ga(1) gb(1) by (rule gradient_Add)
    have w: "wf_heap (?h2 @ [Add ga gb])"
      using gb(2) ga(3) gb(3) by (intro wf_heap_snoc) auto
    have "evaluate k (length ?h2) = Some (dval k self var)"
      if wk: "wf_heap k" and ag: "agrees (?h2 @ [Add ga gb]) k" for k
    proof -
      have root: "k ! length ?h2 = Add ga gb" "length ?h2 < length k"
        using ag agrees_Add [of "?h2 @ [Add ga gb]" k "length ?h2" ga gb]
          agrees_length [of "?h2 @ [Add ga gb]" k "length ?h2"] by simp_all
      have slf: "k ! self = Add a b" "self < length k"
        using ag self Add agrees_Add [of "?h2 @ [Add ga gb]" k self a b]
          agrees_length [of "?h2 @ [Add ga gb]" k self] by (simp_all add: nth_append)
      have ag2: "agrees ?h2 k"
        using ag by (rule agrees_append)
      then have ag1: "agrees (h @ e1) k"
        by (rule agrees_append)
      have "evaluate k ga = Some (dval k a var)" "evaluate k gb = Some (dval k b var)"
        using ga(4) [OF wk ag1] gb(4) [OF wk ag2] by simp_all
      then show ?thesis
        using root slf ab by (simp add: evaluate_Add dval_Add)
    qed
    with g w show ?thesis
      by (intro exI [of _ "length ?h2"] exI [of _ ?ext]) simp
  next
    case (Mul a b)
    have ab: "a < self" "b < self"
      using wf self Mul by (auto dest: wf_heapD)
    have "b < length h"
      using ab self by simp
    from less.IH [OF ab(2) wf this] obtain gb e1 where
      gb: "gradient h b var = Some (gb, h @ e1)" "wf_heap (h @ e1)" "gb < length (h @ e1)"
        "\<And>k. wf_heap k \<Longrightarrow> agrees (h @ e1) k \<Longrightarrow> evaluate k gb = Some (dval k b var)"
      by blast
    let ?h2 = "(h @ e1) @ [Mul a gb]"
    have w2: "wf_heap ?h2"
      using gb(2) gb(3) ab self by (intro wf_heap_snoc) auto
    have "a < length ?h2"
      using ab self by simp
    from less.IH [OF ab(1) w2 this] obtain ga e3 where
      ga: "gradient ?h2 a var = Some (ga, ?h2 @ e3)" "wf_heap (?h2 @ e3)"
        "ga < length (?h2 @ e3)"
        "\<And>k. wf_heap k \<Longrightarrow> agrees (?h2 @ e3) k \<Longrightarrow> evaluate k ga = Some (dval k a var)"
      by blast
    let ?h3 = "?h2 @ e3"
    let ?m1 = "length (h @ e1)"
    let ?m2 = "length ?h3"
    let ?h5 = "?h3 @ [Mul ga b, Add ?m1 ?m2]"
    let ?ext = "e1 @ [Mul a gb] @ e3 @ [Mul ga b, Add ?m1 ?m2]"
    have g: "gradient h self var = Some (Suc ?m2, ?h5)"
      using self Mul gb(1) ga(1) by (rule gradient_Mul)
    have "wf_heap (?h3 @ [Mul ga b])"
      using ga(2) ga(3) ab self by (intro wf_heap_snoc) auto
    then have "wf_heap ((?h3 @ [Mul ga b]) @ [Add ?m1 ?m2])"
      by (rule wf_heap_snoc) auto
    then have w: "wf_heap ?h5"
      by simp
    have "evaluate k (Suc ?m2) = Some (dval k self var)"
      if wk: "wf_heap k" and ag: "agrees ?h5 k" for k
    proof -
      have root: "k ! Suc ?m2 = Add ?m1 ?m2" "Suc ?m2 < length k"
        using ag agrees_Add [of ?h5 k "Suc ?m2" ?m1 ?m2] agrees_length [of ?h5 k "Suc ?m2"]
        by (simp_all add: nth_append)
      have m2: "k ! ?m2 = Mul ga b" "?m2 < length k"
        using ag agrees_Mul [of ?h5 k ?m2 ga b] agrees_length [of ?h5 k ?m2]
        by (simp_all add: nth_append)
      have m1: "k ! ?m1 = Mul a gb" "?m1 < length k"
        using ag agrees_Mul [of ?h5 k ?m1 a gb] agrees_length [of ?h5 k ?m1]
        by (simp_all add: nth_append)
      have slf: "k ! self = Mul a b" "self < length k"
        using ag self Mul agrees_Mul [of ?h5 k self a b] agrees_length [of ?h5 k self]
        by (simp_all add: nth_append)
      have ag3: "agrees ?h3 k"
        using ag by (rule agrees_append)
      then have "agrees ?h2 k"
        by (rule agrees_append)
      then have ag1: "agrees (h @ e1) k"
        by (rule agrees_append)
      obtain va vb where v: "evaluate k a = Some va" "evaluate k b = Some vb"
        using evaluate_total [OF wk, of a] evaluate_total [OF wk, of b] ab slf(2) by auto
      have "evaluate k ga = Some (dval k a var)" "evaluate k gb = Some (dval k b var)"
        using ga(4) [OF wk ag3] gb(4) [OF wk ag1] by simp_all
      then show ?thesis
        using root m1 m2 slf ab v by (simp add: evaluate_Add evaluate_Mul dval_Mul)
    qed
    with g w show ?thesis
      by (intro exI [of _ "Suc ?m2"] exI [of _ ?ext]) simp
  qed
qed

subsection \<open>The reverse-mode methods, one step at a time\<close>

lemma evaluate_returns:
  assumes "n < length h" and "h ! n = Add a b \<or> h ! n = Mul a b" and "evaluate h n = Some z"
  shows "\<exists>x y. evaluate h a = Some x \<and> evaluate h b = Some y"
  using assms by (auto simp: evaluate_Add evaluate_Mul split: Option.bind_splits)

lemma evaluateR_ConstR:
  "n < length h \<Longrightarrow> h ! n = ConstR v \<Longrightarrow> evaluateR h n = Some (v, h)"
  by (subst evaluateR.simps) simp

lemma evaluateR_VarR:
  "n < length h \<Longrightarrow> h ! n = VarR nm v g \<Longrightarrow> evaluateR h n = Some (v, h)"
  by (subst evaluateR.simps) simp

lemma evaluateR_AddR:
  "n < length h \<Longrightarrow> h ! n = AddR a b c \<Longrightarrow>
   evaluateR h n = do {
     (x, h1) \<leftarrow> evaluateR h a;
     (y, h2) \<leftarrow> evaluateR h1 b;
     Some (x + y, set_valueR n (x + y) h2) }"
  by (subst evaluateR.simps) simp

lemma evaluateR_MulR:
  "n < length h \<Longrightarrow> h ! n = MulR a b c \<Longrightarrow>
   evaluateR h n = do {
     (x, h1) \<leftarrow> evaluateR h a;
     (y, h2) \<leftarrow> evaluateR h1 b;
     Some (x * y, set_valueR n (x * y) h2) }"
  by (subst evaluateR.simps) simp

lemma length_set_valueR: "length (set_valueR n v h) = length h"
  by (simp add: set_valueR_def split: objR.splits)

lemma get_set_valueR: "n < length h \<Longrightarrow> get_value (set_valueR n v h) n = Some v"
  by (simp add: set_valueR_def get_value_def split: objR.splits)

lemma evaluateR_length:
  assumes "evaluateR h n = Some r"
  shows "length (snd r) = length h"
  using assms
  apply (rule evaluateR.raw_induct [where P = "\<lambda>h n r. length (snd r) = length h", rotated])
  subgoal premises p for ev h self r
  proof -
    from p(2) consider "snd r = h"
      | a b x h1 y h2 v where "ev h a = Some (x, h1)" "ev h1 b = Some (y, h2)"
          "snd r = set_valueR self v h2"
      by (auto split: if_splits objR.splits Option.bind_splits)
    then show ?thesis
    proof cases
      case 1
      then show ?thesis by simp
    next
      case 2
      then show ?thesis
        using p(1) [of h a "(x, h1)"] p(1) [of h1 b "(y, h2)"] by (simp add: length_set_valueR)
    qed
  qed
  done

lemma evaluateR_dangling: "evaluateR h n = Some r \<Longrightarrow> n < length h"
  by (subst (asm) evaluateR.simps) (simp split: if_splits)

lemma evaluateR_caches:
  assumes "evaluateR h n = Some (v, h')"
  shows "get_value h' n = Some v"
proof -
  have n: "n < length h"
    using assms by (rule evaluateR_dangling)
  show ?thesis
  proof (cases "h ! n")
    case (ConstR w)
    with assms n show ?thesis
      by (simp add: evaluateR_ConstR get_value_def)
  next
    case (VarR nm w g)
    with assms n show ?thesis
      by (auto simp: evaluateR_VarR get_value_def)
  next
    case (AddR a b c)
    with assms n obtain x h1 y h2 where *:
      "evaluateR h a = Some (x, h1)" "evaluateR h1 b = Some (y, h2)"
      "v = x + y" "h' = set_valueR n (x + y) h2"
      by (auto simp: evaluateR_AddR split: Option.bind_splits)
    then have "length h2 = length h"
      using evaluateR_length [of h a "(x, h1)"] evaluateR_length [of h1 b "(y, h2)"] by simp
    with * n show ?thesis
      by (simp add: get_set_valueR)
  next
    case (MulR a b c)
    with assms n obtain x h1 y h2 where *:
      "evaluateR h a = Some (x, h1)" "evaluateR h1 b = Some (y, h2)"
      "v = x * y" "h' = set_valueR n (x * y) h2"
      by (auto simp: evaluateR_MulR split: Option.bind_splits)
    then have "length h2 = length h"
      using evaluateR_length [of h a "(x, h1)"] evaluateR_length [of h1 b "(y, h2)"] by simp
    with * n show ?thesis
      by (simp add: get_set_valueR)
  qed
qed

lemma backpropagate_ConstR:
  "n < length h \<Longrightarrow> h ! n = ConstR v \<Longrightarrow> backpropagate h n g = Some h"
  by (subst backpropagate.simps) simp

lemma backpropagate_VarR:
  "n < length h \<Longrightarrow> h ! n = VarR nm v acc \<Longrightarrow>
   backpropagate h n g = Some (h[n := VarR nm v (acc + g)])"
  by (subst backpropagate.simps) simp

lemma backpropagate_AddR:
  "n < length h \<Longrightarrow> h ! n = AddR a b c \<Longrightarrow>
   backpropagate h n g = do { h1 \<leftarrow> backpropagate h a g; backpropagate h1 b g }"
  by (subst backpropagate.simps) simp

lemma backpropagate_MulR:
  "n < length h \<Longrightarrow> h ! n = MulR a b c \<Longrightarrow>
   backpropagate h n g = do {
     bv \<leftarrow> get_value h b;
     h1 \<leftarrow> backpropagate h a (g * bv);
     av \<leftarrow> get_value h1 a;
     backpropagate h1 b (g * av) }"
  by (subst backpropagate.simps) simp

subsection \<open>Rendering, one step at a time\<close>

lemma str_Const: "n < length h \<Longrightarrow> h ! n = Const v \<Longrightarrow> str sv h n = Some (sv v)"
  by (subst str.simps) simp

lemma str_Var: "n < length h \<Longrightarrow> h ! n = Var nm v \<Longrightarrow> str sv h n = Some nm"
  by (subst str.simps) simp

lemma str_Add:
  "n < length h \<Longrightarrow> h ! n = Add a b \<Longrightarrow> str sv h a = Some sa \<Longrightarrow> str sv h b = Some sb \<Longrightarrow>
   str sv h n = Some (sa @ '' + '' @ sb)"
  by (subst str.simps) simp

lemma str_Mul:
  "n < length h \<Longrightarrow> h ! n = Mul a b \<Longrightarrow> str sv h a = Some sa \<Longrightarrow> str sv h b = Some sb \<Longrightarrow>
   str sv h n = Some (''('' @ sa @ '') * ('' @ sb @ '')'')"
  by (subst str.simps) simp

lemma strR_ConstR: "n < length h \<Longrightarrow> h ! n = ConstR v \<Longrightarrow> strR sv h n = Some (sv v)"
  by (subst strR.simps) simp

lemma strR_VarR: "n < length h \<Longrightarrow> h ! n = VarR nm v g \<Longrightarrow> strR sv h n = Some nm"
  by (subst strR.simps) simp

lemma strR_AddR:
  "n < length h \<Longrightarrow> h ! n = AddR a b c \<Longrightarrow> strR sv h a = Some sa \<Longrightarrow> strR sv h b = Some sb \<Longrightarrow>
   strR sv h n = Some (sa @ '' + '' @ sb)"
  by (subst strR.simps) simp

lemma strR_MulR:
  "n < length h \<Longrightarrow> h ! n = MulR a b c \<Longrightarrow> strR sv h a = Some sa \<Longrightarrow> strR sv h b = Some sb \<Longrightarrow>
   strR sv h n = Some (''('' @ sa @ '') * ('' @ sb @ '')'')"
  by (subst strR.simps) simp

subsection \<open>The notebook's sessions\<close>

lemma evaluate_session_42: "evaluate_session (3::int) 4 = Some 42"
  by code_simp

lemma evaluateR_session_42: "evaluateR_session (3::int) 4 = Some 42"
  by code_simp

lemma forward_session_values:
  "forward_session (3::real) 4 = Some ([24, 10], [[8, 6], [6, 0]])"
  by code_simp

lemma reverse_session_values: "reverse_session (3::real) 4 1 = Some (42, 24, 10)"
  by code_simp

lemma square_session_value: "square_session v g = Some (0 + g * v + g * v)"
  by (simp add: square_session_def Var_init_def BinaryOperator_init_def newR_def
      evaluateR.simps backpropagate.simps get_value_def set_valueR_def get_gradient_def)

lemma dual_session_values: "dual_session (3::real) 4 = Some (Dual (DualNumber 42 0), 24, 10)"
  by code_simp

lemma str_session_value:
  "str_session = (Some ''((x) * (x)) * (y) + y + 2'', Some ''((x) * (x)) * (y) + y + 2'')"
  by code_simp

subsection \<open>Bindings and reachability\<close>

lemma length_rebind: "length (rebind \<beta> h) = length h"
  by (simp add: rebind_def)

lemma nth_rebind:
  "i < length h \<Longrightarrow>
   rebind \<beta> h ! i = (case h ! i of Var nm v \<Rightarrow> Var nm (\<beta> i) | ob \<Rightarrow> ob)"
  by (simp add: rebind_def split: obj.splits)

lemma rebound_rebind: "i < length h \<Longrightarrow> rebound (h ! i) (rebind \<beta> h ! i)"
  by (cases "h ! i") (simp_all add: nth_rebind)

lemma agrees_rebind: "agrees h (rebind \<beta> h)"
  by (simp add: agrees_def length_rebind rebound_rebind)

lemma wf_heap_rebind: "wf_heap h \<Longrightarrow> wf_heap (rebind \<beta> h)"
  unfolding wf_heap_def
  by (auto simp: length_rebind rebound_refs [OF rebound_rebind])

lemma reach_agrees:
  assumes "agrees h k" and "wf_heap h"
  shows "reach k n r \<Longrightarrow> n < length h \<Longrightarrow> reach h n r"
proof (induction rule: reach.induct)
  case (reach_self n)
  show ?case by (rule reach.reach_self)
next
  case (reach_child n c r)
  have "refs (k ! n) = refs (h ! n)"
    using assms(1) reach_child.prems by (intro rebound_refs agrees_nth)
  with reach_child.hyps have c: "c \<in> set (refs (h ! n))"
    by simp
  then have "c < n"
    using assms(2) reach_child.prems by (auto dest: wf_heapD)
  then have "reach h c r"
    using reach_child.IH reach_child.prems by simp
  with reach_child.prems c show ?case
    by (rule reach.reach_child)
qed

lemma dval_unreachable:
  fixes k :: "'a::semiring_1 heap"
  assumes "wf_heap k"
  shows "n < length k \<Longrightarrow> \<not> reach k n var \<Longrightarrow> dval k n var = 0"
proof (induction n rule: less_induct)
  case (less n)
  show ?case
  proof (cases "k ! n")
    case (Const v)
    with less.prems show ?thesis by (simp add: dval_Const)
  next
    case (Var nm v)
    have "n \<noteq> var"
      using less.prems(2) reach_self [of k n] by auto
    with Var less.prems show ?thesis by (simp add: dval_Var)
  next
    case (Add a b)
    have ab: "a < n" "b < n"
      using assms less.prems Add by (auto dest: wf_heapD)
    have "\<not> reach k a var" "\<not> reach k b var"
      using less.prems Add reach_child [of n k a var] reach_child [of n k b var] by auto
    then have "dval k a var = 0" "dval k b var = 0"
      using less.IH ab less.prems(1) by simp_all
    with Add less.prems ab show ?thesis by (simp add: dval_Add)
  next
    case (Mul a b)
    have ab: "a < n" "b < n"
      using assms less.prems Mul by (auto dest: wf_heapD)
    have "\<not> reach k a var" "\<not> reach k b var"
      using less.prems Mul reach_child [of n k a var] reach_child [of n k b var] by auto
    then have "dval k a var = 0" "dval k b var = 0"
      using less.IH ab less.prems(1) by simp_all
    with Mul less.prems ab show ?thesis by (simp add: dval_Mul)
  qed
qed

lemma gradient_unreachable:
  fixes h :: "'a::semiring_1 heap"
  assumes wf: "wf_heap h" and self: "self < length h" and nr: "\<not> reach h self var"
  shows "\<exists>g h'. gradient h self var = Some (g, h') \<and> (\<forall>\<beta>. evaluate (rebind \<beta> h') g = Some 0)"
proof -
  from gradient_sem [OF wf self, of var] obtain g e1 where
    g: "gradient h self var = Some (g, h @ e1)" "wf_heap (h @ e1)"
      "\<And>k. wf_heap k \<Longrightarrow> agrees (h @ e1) k \<Longrightarrow> evaluate k g = Some (dval k self var)"
    by blast
  have "evaluate (rebind \<beta> (h @ e1)) g = Some 0" for \<beta>
  proof -
    let ?k = "rebind \<beta> (h @ e1)"
    have wk: "wf_heap ?k"
      using g(2) by (rule wf_heap_rebind)
    have ag1: "agrees (h @ e1) ?k"
      by (rule agrees_rebind)
    then have ag: "agrees h ?k"
      by (rule agrees_append)
    have "\<not> reach ?k self var"
      using reach_agrees [OF ag wf, of self var] self nr by blast
    moreover have "self < length ?k"
      using self by (simp add: length_rebind)
    ultimately have "dval ?k self var = 0"
      using dval_unreachable [OF wk] by blast
    with g(3) [OF wk ag1] show ?thesis
      by simp
  qed
  with g(1) show ?thesis
    by blast
qed

subsection \<open>What evaluate stores in the nodes\<close>

lemma erase_Add: "erase ob = Add a b \<Longrightarrow> \<exists>c. ob = AddR a b c"
  by (cases ob) auto

lemma erase_Mul: "erase ob = Mul a b \<Longrightarrow> \<exists>c. ob = MulR a b c"
  by (cases ob) auto

lemma reach_le:
  assumes "wf_heap h"
  shows "reach h n m \<Longrightarrow> m \<le> n"
proof (induction rule: reach.induct)
  case (reach_self n)
  show ?case by simp
next
  case (reach_child n c r)
  then have "c < n"
    using assms by (auto dest: wf_heapD)
  with reach_child show ?case
    by simp
qed

lemma reach_leaf: "reach h n m \<Longrightarrow> refs (h ! n) = [] \<Longrightarrow> m = n"
  by (cases rule: reach.cases) auto

lemma reach_binary:
  "reach h n m \<Longrightarrow> refs (h ! n) = [a, b] \<Longrightarrow> m = n \<or> reach h a m \<or> reach h b m"
  by (cases rule: reach.cases) auto

lemma get_value_set_valueR_other: "m \<noteq> n \<Longrightarrow> get_value (set_valueR n v h) m = get_value h m"
  by (simp add: set_valueR_def get_value_def split: objR.splits)

lemma erase_set_valueR_AddR:
  "n < length h \<Longrightarrow> h ! n = AddR a b c \<Longrightarrow> map erase (set_valueR n v h) = map erase h"
  by (simp add: set_valueR_def map_update list_update_same_conv)

lemma erase_set_valueR_MulR:
  "n < length h \<Longrightarrow> h ! n = MulR a b c \<Longrightarrow> map erase (set_valueR n v h) = map erase h"
  by (simp add: set_valueR_def map_update list_update_same_conv)

lemma evaluateR_sem:
  fixes h :: "'a::{plus,times} heapR"
  assumes "wf_heap (map erase h)" and "n < length h"
  shows "\<exists>v h'. evaluateR h n = Some (v, h') \<and> evaluate (map erase h) n = Some v \<and>
           map erase h' = map erase h \<and>
           (\<forall>m. reach (map erase h) n m \<longrightarrow> get_value h' m = evaluate (map erase h) m) \<and>
           (\<forall>m. get_value h m = evaluate (map erase h) m \<longrightarrow>
                get_value h' m = evaluate (map erase h) m)"
  using assms
proof (induction n arbitrary: h rule: less_induct)
  case (less n)
  let ?E = "map erase h"
  note wf = \<open>wf_heap ?E\<close> and n = \<open>n < length h\<close>
  have En: "?E ! n = erase (h ! n)" "n < length ?E"
    using n by simp_all
  show ?case
  proof (cases "h ! n")
    case (ConstR v)
    have "evaluateR h n = Some (v, h)"
      using n ConstR by (rule evaluateR_ConstR)
    moreover have ev: "evaluate ?E n = Some v"
      using En ConstR by (simp add: evaluate_Const)
    moreover have "get_value h m = evaluate ?E m" if "reach ?E n m" for m
    proof -
      have "m = n"
        using that En ConstR by (intro reach_leaf [of ?E n m]) simp_all
      then show ?thesis
        using ev n ConstR by (simp add: get_value_def)
    qed
    ultimately show ?thesis
      by blast
  next
    case (VarR nm v g)
    have "evaluateR h n = Some (v, h)"
      using n VarR by (rule evaluateR_VarR)
    moreover have ev: "evaluate ?E n = Some v"
      using En VarR by (simp add: evaluate_Var)
    moreover have "get_value h m = evaluate ?E m" if "reach ?E n m" for m
    proof -
      have "m = n"
        using that En VarR by (intro reach_leaf [of ?E n m]) simp_all
      then show ?thesis
        using ev n VarR by (simp add: get_value_def)
    qed
    ultimately show ?thesis
      by blast
  next
    case (AddR a b c)
    have Eadd: "?E ! n = Add a b"
      using En AddR by simp
    have ab: "a < n" "b < n"
      using wf_heapD [OF wf En(2), of a] wf_heapD [OF wf En(2), of b] Eadd by simp_all
    have "a < length h"
      using ab n by simp
    from less.IH [OF ab(1) wf this] obtain x h1 where
      a: "evaluateR h a = Some (x, h1)" "evaluate ?E a = Some x" "map erase h1 = ?E"
        "\<And>m. reach ?E a m \<Longrightarrow> get_value h1 m = evaluate ?E m"
        "\<And>m. get_value h m = evaluate ?E m \<Longrightarrow> get_value h1 m = evaluate ?E m"
      by blast
    have l1: "length h1 = length h"
      using a(3) by (metis length_map)
    have "wf_heap (map erase h1)" "b < length h1"
      using wf a(3) ab n l1 by simp_all
    from less.IH [OF ab(2) this] obtain y h2 where
      b: "evaluateR h1 b = Some (y, h2)" "evaluate ?E b = Some y" "map erase h2 = ?E"
        "\<And>m. reach ?E b m \<Longrightarrow> get_value h2 m = evaluate ?E m"
        "\<And>m. get_value h1 m = evaluate ?E m \<Longrightarrow> get_value h2 m = evaluate ?E m"
      unfolding a(3) by blast
    have l2: "length h2 = length h"
      using b(3) by (metis length_map)
    let ?v = "x + y"
    let ?h' = "set_valueR n ?v h2"
    have "erase (h2 ! n) = Add a b"
      using b(3) Eadd n l2 by (metis nth_map)
    then obtain c' where h2n: "h2 ! n = AddR a b c'"
      using erase_Add by blast
    have r: "evaluateR h n = Some (?v, ?h')"
      using n AddR a(1) b(1) by (simp add: evaluateR_AddR)
    have ev: "evaluate ?E n = Some ?v"
      using evaluate_Add [OF En(2) Eadd] a(2) b(2) by simp
    have er: "map erase ?h' = ?E"
      using erase_set_valueR_AddR [of n h2 a b c' ?v] h2n n l2 b(3) by simp
    have root: "get_value ?h' n = Some ?v"
      using n l2 by (simp add: get_set_valueR)
    have keep: "get_value ?h' m = evaluate ?E m" if "get_value h2 m = evaluate ?E m" for m
      using that root ev by (cases "m = n") (simp_all add: get_value_set_valueR_other)
    have rch: "get_value ?h' m = evaluate ?E m" if "reach ?E n m" for m
    proof -
      from that Eadd consider "m = n" | "reach ?E a m" | "reach ?E b m"
        using reach_binary [of ?E n m a b] by auto
      then show ?thesis
      proof cases
        case 1
        then show ?thesis using root ev by simp
      next
        case 2
        then show ?thesis using a(4) b(5) keep by blast
      next
        case 3
        then show ?thesis using b(4) keep by blast
      qed
    qed
    have pres: "get_value ?h' m = evaluate ?E m" if "get_value h m = evaluate ?E m" for m
      using that a(5) b(5) keep by blast
    from r ev er rch pres show ?thesis
      by blast
  next
    case (MulR a b c)
    have Emul: "?E ! n = Mul a b"
      using En MulR by simp
    have ab: "a < n" "b < n"
      using wf_heapD [OF wf En(2), of a] wf_heapD [OF wf En(2), of b] Emul by simp_all
    have "a < length h"
      using ab n by simp
    from less.IH [OF ab(1) wf this] obtain x h1 where
      a: "evaluateR h a = Some (x, h1)" "evaluate ?E a = Some x" "map erase h1 = ?E"
        "\<And>m. reach ?E a m \<Longrightarrow> get_value h1 m = evaluate ?E m"
        "\<And>m. get_value h m = evaluate ?E m \<Longrightarrow> get_value h1 m = evaluate ?E m"
      by blast
    have l1: "length h1 = length h"
      using a(3) by (metis length_map)
    have "wf_heap (map erase h1)" "b < length h1"
      using wf a(3) ab n l1 by simp_all
    from less.IH [OF ab(2) this] obtain y h2 where
      b: "evaluateR h1 b = Some (y, h2)" "evaluate ?E b = Some y" "map erase h2 = ?E"
        "\<And>m. reach ?E b m \<Longrightarrow> get_value h2 m = evaluate ?E m"
        "\<And>m. get_value h1 m = evaluate ?E m \<Longrightarrow> get_value h2 m = evaluate ?E m"
      unfolding a(3) by blast
    have l2: "length h2 = length h"
      using b(3) by (metis length_map)
    let ?v = "x * y"
    let ?h' = "set_valueR n ?v h2"
    have "erase (h2 ! n) = Mul a b"
      using b(3) Emul n l2 by (metis nth_map)
    then obtain c' where h2n: "h2 ! n = MulR a b c'"
      using erase_Mul by blast
    have r: "evaluateR h n = Some (?v, ?h')"
      using n MulR a(1) b(1) by (simp add: evaluateR_MulR)
    have ev: "evaluate ?E n = Some ?v"
      using evaluate_Mul [OF En(2) Emul] a(2) b(2) by simp
    have er: "map erase ?h' = ?E"
      using erase_set_valueR_MulR [of n h2 a b c' ?v] h2n n l2 b(3) by simp
    have root: "get_value ?h' n = Some ?v"
      using n l2 by (simp add: get_set_valueR)
    have keep: "get_value ?h' m = evaluate ?E m" if "get_value h2 m = evaluate ?E m" for m
      using that root ev by (cases "m = n") (simp_all add: get_value_set_valueR_other)
    have rch: "get_value ?h' m = evaluate ?E m" if "reach ?E n m" for m
    proof -
      from that Emul consider "m = n" | "reach ?E a m" | "reach ?E b m"
        using reach_binary [of ?E n m a b] by auto
      then show ?thesis
      proof cases
        case 1
        then show ?thesis using root ev by simp
      next
        case 2
        then show ?thesis using a(4) b(5) keep by blast
      next
        case 3
        then show ?thesis using b(4) keep by blast
      qed
    qed
    have pres: "get_value ?h' m = evaluate ?E m" if "get_value h m = evaluate ?E m" for m
      using that a(5) b(5) keep by blast
    from r ev er rch pres show ?thesis
      by blast
  qed
qed

lemma evaluateR_caches_reachable:
  fixes h :: "'a::{plus,times} heapR"
  assumes "wf_heap (map erase h)" and "evaluateR h n = Some (v, h')"
    and "reach (map erase h) n m"
  shows "\<exists>w. get_value h' m = Some w \<and> evaluate (map erase h) m = Some w"
proof -
  have n: "n < length h"
    using assms(2) by (rule evaluateR_dangling)
  from evaluateR_sem [OF assms(1) n] assms(2) assms(3)
  have g: "get_value h' m = evaluate (map erase h) m"
    by auto
  have "m \<le> n"
    using assms(1,3) by (rule reach_le)
  then have "m < length (map erase h)"
    using n by simp
  then obtain w where "evaluate (map erase h) m = Some w"
    using evaluate_total [OF assms(1)] by blast
  with g show ?thesis
    by simp
qed

section \<open>The claims\<close>

subsection \<open>Evaluation\<close>

text \<open>
  Claim C1. \<^verbatim>\<open>evaluate\<close> follows the four rules: a constant and a variable return their
  value; \<^verbatim>\<open>Add\<close> returns the sum and \<^verbatim>\<open>Mul\<close> the product of what its operands
  return, left operand first. Both operands are always evaluated: an operator node
  returns only if both of its operands do, whatever their values. The reverse-mode classes
  follow the same rules and store the result in the node. On the graph of
  \<open>f(x,y) = x\<^sup>2y + y + 2\<close> with \<open>x = 3\<close> and \<open>y = 4\<close>, \<^verbatim>\<open>evaluate\<close> on the root returns 42,
  in both versions of the classes.
\<close>

theorem evaluate_rules:
  fixes h :: "'a::{plus,times} heap" and k :: "'b::{plus,times} heapR"
  shows
    "(n < length h \<and> h ! n = Const v \<longrightarrow> evaluate h n = Some v) \<and>
     (n < length h \<and> h ! n = Var nm v \<longrightarrow> evaluate h n = Some v) \<and>
     (n < length h \<and> h ! n = Add a b \<longrightarrow>
        evaluate h n = do { x \<leftarrow> evaluate h a; y \<leftarrow> evaluate h b; Some (x + y) }) \<and>
     (n < length h \<and> h ! n = Mul a b \<longrightarrow>
        evaluate h n = do { x \<leftarrow> evaluate h a; y \<leftarrow> evaluate h b; Some (x * y) }) \<and>
     (n < length h \<and> (h ! n = Add a b \<or> h ! n = Mul a b) \<and> evaluate h n = Some z \<longrightarrow>
        (\<exists>x y. evaluate h a = Some x \<and> evaluate h b = Some y)) \<and>
     evaluate_session (3::int) 4 = Some 42 \<and>
     (m < length k \<and> k ! m = ConstR w \<longrightarrow> evaluateR k m = Some (w, k)) \<and>
     (m < length k \<and> k ! m = VarR nm' w acc \<longrightarrow> evaluateR k m = Some (w, k)) \<and>
     (m < length k \<and> k ! m = AddR a' b' c \<longrightarrow>
        evaluateR k m = do {
          (x, k1) \<leftarrow> evaluateR k a';
          (y, k2) \<leftarrow> evaluateR k1 b';
          Some (x + y, set_valueR m (x + y) k2) }) \<and>
     (m < length k \<and> k ! m = MulR a' b' c \<longrightarrow>
        evaluateR k m = do {
          (x, k1) \<leftarrow> evaluateR k a';
          (y, k2) \<leftarrow> evaluateR k1 b';
          Some (x * y, set_valueR m (x * y) k2) }) \<and>
     evaluateR_session (3::int) 4 = Some 42"
proof (intro conjI impI)
  show "\<exists>x y. evaluate h a = Some x \<and> evaluate h b = Some y"
    if "n < length h \<and> (h ! n = Add a b \<or> h ! n = Mul a b) \<and> evaluate h n = Some z"
    using that evaluate_returns [of n h a b z] by blast
qed (simp_all add: evaluate_Const evaluate_Var evaluate_Add evaluate_Mul evaluate_session_42
      evaluateR_ConstR evaluateR_VarR evaluateR_AddR evaluateR_MulR evaluateR_session_42)

theorem evaluate_rules_witness:
  "evaluate [Var ''x'' (0::int), Var ''y'' 5, Mul 0 1] 2 = Some 0 \<and>
   evaluateR [VarR ''x'' (0::int) 0, VarR ''y'' 5 0, AddR 0 1 None] 2 =
     Some (5, [VarR ''x'' 0 0, VarR ''y'' 5 0, AddR 0 1 (Some 5)])"
proof -
  let ?h = "[Var ''x'' (0::int), Var ''y'' 5, Mul 0 1]"
  let ?k = "[VarR ''x'' (0::int) 0, VarR ''y'' 5 0, AddR 0 1 None]"
  have x: "evaluate ?h 0 = Some 0" and y: "evaluate ?h 1 = Some 5"
    and m: "evaluate ?h 2 = do { x \<leftarrow> evaluate ?h 0; y \<leftarrow> evaluate ?h 1; Some (x * y) }"
    using evaluate_rules [where n = 0 and h = ?h and nm = "''x''" and v = 0
        and k = "[] :: int heapR" and m = 0]
      evaluate_rules [where n = 1 and h = ?h and nm = "''y''" and v = 5
        and k = "[] :: int heapR" and m = 0]
      evaluate_rules [where n = 2 and h = ?h and a = 0 and b = 1
        and k = "[] :: int heapR" and m = 0]
    by simp_all
  have xR: "evaluateR ?k 0 = Some (0, ?k)" and yR: "evaluateR ?k 1 = Some (5, ?k)"
    and aR: "evaluateR ?k 2 = do {
          (x, k1) \<leftarrow> evaluateR ?k 0;
          (y, k2) \<leftarrow> evaluateR k1 1;
          Some (x + y, set_valueR 2 (x + y) k2) }"
    using evaluate_rules [where m = 0 and k = ?k and nm' = "''x''" and w = 0 and acc = 0
        and h = "[] :: int heap" and n = 0]
      evaluate_rules [where m = 1 and k = ?k and nm' = "''y''" and w = 5 and acc = 0
        and h = "[] :: int heap" and n = 0]
      evaluate_rules [where m = 2 and k = ?k and a' = 0 and b' = 1 and c = None
        and h = "[] :: int heap" and n = 0]
    by simp_all
  show ?thesis
    using x y xR yR unfolding m aR by (simp add: set_valueR_def)
qed

subsection \<open>Forward-mode symbolic gradients\<close>

text \<open>
  Claim C2. \<^verbatim>\<open>gradient\<close> follows the four rules: a constant gives a new \<^verbatim>\<open>Const(0)\<close>;
  a variable gives \<^verbatim>\<open>Const(1)\<close> when it is the target object and \<^verbatim>\<open>Const(0)\<close> otherwise;
  \<^verbatim>\<open>Add(a,b)\<close> gives the \<^verbatim>\<open>Add\<close> of the operands' gradients; \<^verbatim>\<open>Mul(a,b)\<close> gives
  \<^verbatim>\<open>Add(Mul(a, b'), Mul(a', b))\<close>, the summands in this order, where \<open>b'\<close> and \<open>a'\<close> are
  the operands' gradients. On the graph of \<open>f\<close> at \<open>x = 3\<close>, \<open>y = 4\<close> the gradient graphs
  evaluate to 24 (by \<open>x\<close>) and 10 (by \<open>y\<close>), and the gradients of the gradient graphs
  evaluate to the Hessian \<open>[[8, 6], [6, 0]]\<close>.
\<close>

theorem gradient_rules:
  fixes h :: "'a::{zero,one} heap"
  shows
    "(n < length h \<and> h ! n = Const v \<longrightarrow>
        gradient h n var = Some (length h, h @ [Const 0])) \<and>
     (n < length h \<and> h ! n = Var nm v \<longrightarrow>
        gradient h n var = Some (length h, h @ [Const (if n = var then 1 else 0)])) \<and>
     (n < length h \<and> h ! n = Add a b \<and>
      gradient h a var = Some (ga, h1) \<and> gradient h1 b var = Some (gb, h2) \<longrightarrow>
        gradient h n var = Some (length h2, h2 @ [Add ga gb])) \<and>
     (n < length h \<and> h ! n = Mul a b \<and>
      gradient h b var = Some (gb', h1') \<and>
      gradient (h1' @ [Mul a gb']) a var = Some (ga', h3') \<longrightarrow>
        gradient h n var =
          Some (Suc (length h3'), h3' @ [Mul ga' b, Add (length h1') (length h3')])) \<and>
     forward_session (3::real) 4 = Some ([24, 10], [[8, 6], [6, 0]])"
proof (intro conjI impI)
  show "gradient h n var = Some (length h2, h2 @ [Add ga gb])"
    if "n < length h \<and> h ! n = Add a b \<and>
        gradient h a var = Some (ga, h1) \<and> gradient h1 b var = Some (gb, h2)"
    using that gradient_Add [of n h a b var ga h1 gb h2] by blast
  show "gradient h n var =
          Some (Suc (length h3'), h3' @ [Mul ga' b, Add (length h1') (length h3')])"
    if "n < length h \<and> h ! n = Mul a b \<and> gradient h b var = Some (gb', h1') \<and>
        gradient (h1' @ [Mul a gb']) a var = Some (ga', h3')"
    using that gradient_Mul [of n h a b var gb' h1' ga' h3'] by blast
qed (simp_all add: gradient_Const gradient_Var forward_session_values)

theorem gradient_rules_witness:
  "gradient [Var ''x'' (3::real), Var ''y'' 4, Mul 0 1] 2 0 =
     Some (7, [Var ''x'' 3, Var ''y'' 4, Mul 0 1, Const 0, Mul 0 3, Const 1, Mul 5 1, Add 4 6])"
proof -
  let ?h = "[Var ''x'' (3::real), Var ''y'' 4, Mul 0 1]"
  let ?h1 = "?h @ [Const 0]"
  let ?h2 = "?h1 @ [Mul 0 3]"
  let ?h3 = "?h2 @ [Const 1]"
  have gb: "gradient ?h 1 0 = Some (3, ?h1)"
    using gradient_rules [where h = ?h and n = 1 and var = 0 and nm = "''y''" and v = 4]
    by simp
  have ga: "gradient ?h2 0 0 = Some (5, ?h3)"
    using gradient_rules [where h = ?h2 and n = 0 and var = 0 and nm = "''x''" and v = 3]
    by simp
  show ?thesis
    using gradient_rules [where h = ?h and n = 2 and var = 0 and a = 0 and b = 1
        and gb' = 3 and h1' = ?h1 and ga' = 5 and h3' = ?h3] gb ga
    by simp
qed

subsection \<open>Reverse-mode backpropagation\<close>

text \<open>
  Claim C3. After \<^verbatim>\<open>evaluate\<close> on the graph of \<open>f\<close> with \<open>x = 3\<close> and \<open>y = 4\<close>,
  \<^verbatim>\<open>backpropagate(1.0)\<close> on the root leaves 24 in the gradient of \<open>x\<close> and 10 in the
  gradient of \<open>y\<close>. \<^verbatim>\<open>Mul(a,b).backpropagate(g)\<close> sends \<open>g * b.value\<close> into \<open>a\<close>, then
  \<open>g * a.value\<close> into \<open>b\<close>; after \<^verbatim>\<open>evaluate\<close> on a node of a well-formed heap,
  every node reachable from it, so each operand, holds its value in \<^verbatim>\<open>value\<close>;
  \<^verbatim>\<open>Add\<close> sends \<open>g\<close> to both operands; a constant does nothing; a variable adds \<open>g\<close>
  to its gradient. In \<open>x * x\<close> both occurrences of the one object \<open>x\<close> add into its one
  gradient attribute.
\<close>

theorem backpropagate_rules:
  fixes h :: "'a::{zero,plus,times} heapR"
  shows
    "reverse_session (3::real) 4 1 = Some (42, 24, 10) \<and>
     (n < length h \<and> h ! n = MulR a b c \<longrightarrow>
        backpropagate h n g = do {
          bv \<leftarrow> get_value h b;
          h1 \<leftarrow> backpropagate h a (g * bv);
          av \<leftarrow> get_value h1 a;
          backpropagate h1 b (g * av) }) \<and>
     (evaluateR h n = Some (v, h') \<longrightarrow> get_value h' n = Some v) \<and>
     (wf_heap (map erase h) \<and> evaluateR h n = Some (v, h') \<and> reach (map erase h) n m \<longrightarrow>
        (\<exists>u. get_value h' m = Some u \<and> evaluate (map erase h) m = Some u)) \<and>
     (n < length h \<and> h ! n = AddR a b c \<longrightarrow>
        backpropagate h n g = do { h1 \<leftarrow> backpropagate h a g; backpropagate h1 b g }) \<and>
     (n < length h \<and> h ! n = ConstR w \<longrightarrow> backpropagate h n g = Some h) \<and>
     (n < length h \<and> h ! n = VarR nm w acc \<longrightarrow>
        backpropagate h n g = Some (h[n := VarR nm w (acc + g)])) \<and>
     square_session w g = Some (0 + g * w + g * w)"
proof (intro conjI impI)
  show "get_value h' n = Some v" if "evaluateR h n = Some (v, h')"
    using that by (rule evaluateR_caches)
  show "\<exists>u. get_value h' m = Some u \<and> evaluate (map erase h) m = Some u"
    if "wf_heap (map erase h) \<and> evaluateR h n = Some (v, h') \<and> reach (map erase h) n m"
    using that evaluateR_caches_reachable [of h n v h' m] by blast
qed (simp_all add: reverse_session_values backpropagate_MulR backpropagate_AddR
    backpropagate_ConstR backpropagate_VarR square_session_value)

theorem backpropagate_rules_witness:
  "backpropagate [VarR ''x'' (3::real) 0, VarR ''y'' 4 0, MulR 0 1 (Some 12)] 2 1 =
     Some [VarR ''x'' 3 4, VarR ''y'' 4 3, MulR 0 1 (Some 12)] \<and>
   (\<exists>u. get_value [VarR ''x'' (3::real) 0, VarR ''y'' 4 0, MulR 0 1 (Some 12)] 1 = Some u \<and>
        evaluate (map erase [VarR ''x'' (3::real) 0, VarR ''y'' 4 0, MulR 0 1 None]) 1 = Some u)"
proof -
  let ?h0 = "[VarR ''x'' (3::real) 0, VarR ''y'' 4 0, MulR 0 1 None]"
  have wf: "wf_heap (map erase ?h0)"
    by code_simp
  have ev: "evaluateR ?h0 2 = Some (12, [VarR ''x'' 3 0, VarR ''y'' 4 0, MulR 0 1 (Some 12)])"
    by (simp add: evaluateR.simps set_valueR_def)
  have "reach (map erase ?h0) 1 1"
    by (rule reach_self)
  then have rc: "reach (map erase ?h0) 2 1"
    by (intro reach_child [of 2 _ 1]) simp_all
  have cache: "\<exists>u. get_value [VarR ''x'' (3::real) 0, VarR ''y'' 4 0, MulR 0 1 (Some 12)] 1 = Some u \<and>
      evaluate (map erase ?h0) 1 = Some u"
    using backpropagate_rules [where h = ?h0 and n = 2 and v = 12 and m = 1
        and h' = "[VarR ''x'' 3 0, VarR ''y'' 4 0, MulR 0 1 (Some 12)]"] wf ev rc
    by blast
  let ?h = "[VarR ''x'' (3::real) 0, VarR ''y'' 4 0, MulR 0 1 (Some 12)]"
  let ?h1 = "[VarR ''x'' (3::real) 4, VarR ''y'' 4 0, MulR 0 1 (Some 12)]"
  have x: "backpropagate ?h 0 4 = Some ?h1"
    using backpropagate_rules [where h = ?h and n = 0 and nm = "''x''" and w = 3 and acc = 0
        and g = 4]
    by simp
  have y: "backpropagate ?h1 1 3 = Some [VarR ''x'' 3 4, VarR ''y'' 4 3, MulR 0 1 (Some 12)]"
    using backpropagate_rules [where h = ?h1 and n = 1 and nm = "''y''" and w = 4 and acc = 0
        and g = 3]
    by simp
  have "backpropagate ?h 2 1 = do {
          bv \<leftarrow> get_value ?h 1;
          h1 \<leftarrow> backpropagate ?h 0 (1 * bv);
          av \<leftarrow> get_value h1 0;
          backpropagate h1 1 (1 * av) }"
    using backpropagate_rules [where h = ?h and n = 2 and a = 0 and b = 1 and c = "Some 12"
        and g = 1]
    by simp
  then have "backpropagate ?h 2 1 = Some [VarR ''x'' 3 4, VarR ''y'' 4 3, MulR 0 1 (Some 12)]"
    using x y by (simp add: get_value_def)
  with cache show ?thesis
    by blast
qed

subsection \<open>Dual numbers\<close>

text \<open>
  Claim C4. Dual numbers add and multiply by
  \<open>(a1,b1) + (a2,b2) = (a1+a2, b1+b2)\<close> and \<open>(a1,b1) * (a2,b2) = (a1*a2, a1*b2 + a2*b1)\<close>
  (in a commutative semiring; the code computes the second component as
  \<open>b1*a2 + a1*b2\<close>). A bare number \<open>k\<close> on either side of a dual number acts as \<open>(k, 0)\<close>.
  The graph of \<open>f\<close> evaluates to \<open>42\<close> with \<open>x = DualNumber(3.0)\<close>, \<open>y = DualNumber(4.0)\<close>;
  the \<^verbatim>\<open>eps\<close> of its value is 24 with \<open>x = DualNumber(3.0, 1.0)\<close>, \<open>y = DualNumber(4.0)\<close>,
  and 10 with \<open>x = DualNumber(3.0)\<close>, \<open>y = DualNumber(4.0, 1.0)\<close>.
\<close>

theorem DualNumber_algebra:
  fixes a1 :: "'a::comm_semiring_0" and k :: 'a
  shows
    "Dual (DualNumber a1 b1) + Dual (DualNumber a2 b2) = Dual (DualNumber (a1 + a2) (b1 + b2)) \<and>
     Dual (DualNumber a1 b1) * Dual (DualNumber a2 b2) =
       Dual (DualNumber (a1 * a2) (a1 * b2 + a2 * b1)) \<and>
     Num k + Dual d = Dual (DualNumber k 0) + Dual d \<and>
     Dual d + Num k = Dual d + Dual (DualNumber k 0) \<and>
     Num k * Dual d = Dual (DualNumber k 0) * Dual d \<and>
     Dual d * Num k = Dual d * Dual (DualNumber k 0) \<and>
     dual_session (3::real) 4 = Some (Dual (DualNumber 42 0), 24, 10)"
  by (simp add: plus_pyval_def times_pyval_def DualNumber_add_def DualNumber_radd_def
      DualNumber_mul_def DualNumber_rmul_def dual_session_values add.commute mult.commute)

theorem DualNumber_algebra_witness:
  "Num 3 + Dual (DualNumber (3::real) 4) = Dual (DualNumber 6 4) \<and>
   Dual (DualNumber (3::real) 4) * Dual (DualNumber 5 7) = Dual (DualNumber 15 41)"
  using DualNumber_algebra [of "3::real" 4 5 7 3 "DualNumber 3 4"]
    DualNumber_algebra [of "3::real" 0 3 4 3 "DualNumber 3 4"]
  by simp

subsection \<open>Finite differences\<close>

text \<open>
  Claim C5. For a non-zero \<open>e\<close>, \<^verbatim>\<open>gradients(func, vars_list, e)\<close> returns a list with
  one entry per element of \<^verbatim>\<open>vars_list\<close>; entry \<open>i\<close> is
  \<open>(func (the point with element i increased by e) - func (the point)) / e\<close>. The call
  invokes \<^verbatim>\<open>func\<close> exactly \<open>n + 1\<close> times on a list of \<open>n\<close> elements: once at
  the point, then once per element at the perturbed point, in order. Omitting the third
  argument is the call with \<open>e = 0.0001\<close>.
  (With \<open>e = 0\<close> and a non-empty list the division raises \<^verbatim>\<open>ZeroDivisionError\<close>; the
  claim's quotient presupposes a non-zero divisor.)
\<close>

theorem gradients_finite_difference:
  fixes func :: "'a::{zero,plus,minus,inverse} list \<Rightarrow> 'a"
    and func' :: "'b::field list \<Rightarrow> 'b"
  assumes "vars_list < length (list_objs s)" and "e \<noteq> 0"
  shows "fst (gradients func vars_list e s) =
           Inr (map (\<lambda>i. (func (tweaked (list_objs s ! vars_list) i e) -
                           func (list_objs s ! vars_list)) / e)
                  [0..<length (list_objs s ! vars_list)]) \<and>
         (\<exists>ds. fst (gradients func vars_list e s) = Inr ds \<and>
               length ds = length (list_objs s ! vars_list)) \<and>
         call_log (snd (gradients func vars_list e s)) =
           call_log s @ list_objs s ! vars_list #
             map (\<lambda>i. tweaked (list_objs s ! vars_list) i e)
               [0..<length (list_objs s ! vars_list)] \<and>
         length (call_log (snd (gradients func vars_list e s))) =
           length (call_log s) + (length (list_objs s ! vars_list) + 1) \<and>
         gradients_default func' vars_list s' = gradients func' vars_list (1 / 10000) s'"
  by (simp add: gradients_ok [OF assms] gradients_default_def)

theorem gradients_finite_difference_witness:
  "fst (gradients f_func 0 (1 / 2) \<lparr>list_objs = [[3, 4 :: real]], call_log = []\<rparr>) =
     Inr [26, 10] \<and>
   call_log (snd (gradients f_func 0 (1 / 2) \<lparr>list_objs = [[3, 4 :: real]], call_log = []\<rparr>)) =
     [[3, 4], [7 / 2, 4], [3, 9 / 2]]"
  using gradients_finite_difference
    [where vars_list = 0 and s = "\<lparr>list_objs = [[3, 4 :: real]], call_log = []\<rparr>"
       and e = "1 / 2" and func = f_func and func' = "f_func :: real list \<Rightarrow> real"
       and s' = "\<lparr>list_objs = [], call_log = []\<rparr>"]
  by (simp add: tweaked_def f_func_def upt_rec [of 0] upt_rec [of 1] upt_rec [of 2])

subsection \<open>Rendering\<close>

text \<open>
  Claim C6, as stated, says that every operator node's rendering wraps its operands in
  parentheses, so that the grouping is explicit. It fails for \<^verbatim>\<open>Add\<close>, whose format is
  \<^verbatim>\<open>"{} + {}"\<close>: the sums \<open>(x + y) + z\<close> and \<open>x + (y + z)\<close> both render as
  \<^verbatim>\<open>x + y + z\<close>, with no parenthesis at all.
\<close>

theorem str_sum_counterexample:
  "str str_int sums_heap 4 = Some ''x + y + z'' \<and>
   str str_int sums_heap 6 = Some ''x + y + z'' \<and>
   strR str_int sums_heapR 4 = Some ''x + y + z'' \<and>
   strR str_int sums_heapR 6 = Some ''x + y + z''"
  by code_simp

text \<open>
  Claim C6, amended. \<^verbatim>\<open>Mul\<close> renders as \<^verbatim>\<open>(a) * (b)\<close>, both operands wrapped in
  parentheses; \<^verbatim>\<open>Add\<close> renders as \<^verbatim>\<open>a + b\<close>, with no parentheses around its operands
  or around the sum; a constant renders as Python renders its value and a variable as
  its name. Both versions of the classes render the graph of \<open>f\<close> as
  \<^verbatim>\<open>((x) * (x)) * (y) + y + 2\<close>.
\<close>

theorem str_rules:
  "(n < length h \<and> h ! n = Mul a b \<and> str sv h a = Some sa \<and> str sv h b = Some sb \<longrightarrow>
      str sv h n = Some (''('' @ sa @ '') * ('' @ sb @ '')'')) \<and>
   (n < length h \<and> h ! n = Add a b \<and> str sv h a = Some sa \<and> str sv h b = Some sb \<longrightarrow>
      str sv h n = Some (sa @ '' + '' @ sb)) \<and>
   (n < length h \<and> h ! n = Const v \<longrightarrow> str sv h n = Some (sv v)) \<and>
   (n < length h \<and> h ! n = Var nm v \<longrightarrow> str sv h n = Some nm) \<and>
   (m < length k \<and> k ! m = MulR a' b' c \<and> strR sw k a' = Some sa' \<and> strR sw k b' = Some sb' \<longrightarrow>
      strR sw k m = Some (''('' @ sa' @ '') * ('' @ sb' @ '')'')) \<and>
   (m < length k \<and> k ! m = AddR a' b' c \<and> strR sw k a' = Some sa' \<and> strR sw k b' = Some sb' \<longrightarrow>
      strR sw k m = Some (sa' @ '' + '' @ sb')) \<and>
   (m < length k \<and> k ! m = ConstR w \<longrightarrow> strR sw k m = Some (sw w)) \<and>
   (m < length k \<and> k ! m = VarR nm' w acc \<longrightarrow> strR sw k m = Some nm') \<and>
   str_session = (Some ''((x) * (x)) * (y) + y + 2'', Some ''((x) * (x)) * (y) + y + 2'')"
proof (intro conjI impI)
  show "str sv h n = Some (''('' @ sa @ '') * ('' @ sb @ '')'')"
    if "n < length h \<and> h ! n = Mul a b \<and> str sv h a = Some sa \<and> str sv h b = Some sb"
    using that str_Mul [of n h a b sv sa sb] by blast
  show "str sv h n = Some (sa @ '' + '' @ sb)"
    if "n < length h \<and> h ! n = Add a b \<and> str sv h a = Some sa \<and> str sv h b = Some sb"
    using that str_Add [of n h a b sv sa sb] by blast
  show "strR sw k m = Some (''('' @ sa' @ '') * ('' @ sb' @ '')'')"
    if "m < length k \<and> k ! m = MulR a' b' c \<and> strR sw k a' = Some sa' \<and> strR sw k b' = Some sb'"
    using that strR_MulR [of m k a' b' c sw sa' sb'] by blast
  show "strR sw k m = Some (sa' @ '' + '' @ sb')"
    if "m < length k \<and> k ! m = AddR a' b' c \<and> strR sw k a' = Some sa' \<and> strR sw k b' = Some sb'"
    using that strR_AddR [of m k a' b' c sw sa' sb'] by blast
qed (simp_all add: str_Const str_Var strR_ConstR strR_VarR str_session_value)

theorem str_rules_witness:
  "str str_int [Var ''x'' 3, Const 2, Add 0 1, Mul 2 0] 3 = Some ''(x + 2) * (x)''"
proof -
  let ?h = "[Var ''x'' 3, Const 2, Add 0 1, Mul 2 0]"
  note r = str_rules [where h = ?h and sv = str_int and k = "[] :: int heapR" and m = 0]
  have x: "str str_int ?h 0 = Some ''x''"
    using r [where n = 0 and nm = "''x''" and v = 3] by simp
  have c: "str str_int ?h 1 = Some ''2''"
    using r [where n = 1 and v = 2] by (simp add: str_int_def str_nat.simps)
  have s: "str str_int ?h 2 = Some ''x + 2''"
    using r [where n = 2 and a = 0 and b = 1 and sa = "''x''" and sb = "''2''"] x c by simp
  show ?thesis
    using r [where n = 3 and a = 2 and b = 0 and sa = "''x + 2''" and sb = "''x''"] x s by simp
qed

subsection \<open>Purity of the symbolic gradient\<close>

text \<open>
  Claim C7. On a well-formed heap, \<^verbatim>\<open>gradient\<close> returns and only allocates: every object
  that existed before the call is unchanged after it (structure and values), and
  \<^verbatim>\<open>evaluate\<close> on the original node returns the same value before and after. A second
  call with the same arguments returns a second graph, and the two gradient graphs
  evaluate to the same value at every binding of the variables.
\<close>

theorem gradient_pure:
  fixes h :: "'a::{zero,one,plus,times} heap"
  assumes wf: "wf_heap h" and self: "self < length h"
  shows "\<exists>g1 h1 g2 h2.
           gradient h self var = Some (g1, h1) \<and> take (length h) h1 = h \<and>
           (\<exists>v. evaluate h self = Some v \<and> evaluate h1 self = Some v) \<and>
           gradient h1 self var = Some (g2, h2) \<and> take (length h1) h2 = h1 \<and>
           (\<exists>v. evaluate h self = Some v \<and> evaluate h2 self = Some v) \<and>
           (\<forall>\<beta>. \<exists>v. evaluate (rebind \<beta> h2) g1 = Some v \<and> evaluate (rebind \<beta> h2) g2 = Some v)"
proof -
  from gradient_sem [OF wf self, of var] obtain g1 e1 where
    g1: "gradient h self var = Some (g1, h @ e1)" "wf_heap (h @ e1)"
      "\<And>k. wf_heap k \<Longrightarrow> agrees (h @ e1) k \<Longrightarrow> evaluate k g1 = Some (dval k self var)"
    by blast
  have "self < length (h @ e1)"
    using self by simp
  from gradient_sem [OF g1(2) this, of var] obtain g2 e2 where
    g2: "gradient (h @ e1) self var = Some (g2, (h @ e1) @ e2)" "wf_heap ((h @ e1) @ e2)"
      "\<And>k. wf_heap k \<Longrightarrow> agrees ((h @ e1) @ e2) k \<Longrightarrow> evaluate k g2 = Some (dval k self var)"
    by blast
  obtain v where v: "evaluate h self = Some v"
    using evaluate_total [OF wf self] by blast
  have v1: "evaluate (h @ e1) self = Some v"
    using evaluate_append [OF wf self, of e1] v by simp
  have v2: "evaluate ((h @ e1) @ e2) self = Some v"
    using evaluate_append [OF wf self, of "e1 @ e2"] v by simp
  have "evaluate (rebind \<beta> ((h @ e1) @ e2)) g1 = Some (dval (rebind \<beta> ((h @ e1) @ e2)) self var)
      \<and> evaluate (rebind \<beta> ((h @ e1) @ e2)) g2 = Some (dval (rebind \<beta> ((h @ e1) @ e2)) self var)"
    for \<beta>
  proof -
    let ?k = "rebind \<beta> ((h @ e1) @ e2)"
    have wk: "wf_heap ?k"
      using g2(2) by (rule wf_heap_rebind)
    have ag2: "agrees ((h @ e1) @ e2) ?k"
      by (rule agrees_rebind)
    then have ag1: "agrees (h @ e1) ?k"
      by (rule agrees_append)
    show ?thesis
      using g1(3) [OF wk ag1] g2(3) [OF wk ag2] by simp
  qed
  then have "\<forall>\<beta>. \<exists>v. evaluate (rebind \<beta> ((h @ e1) @ e2)) g1 = Some v \<and>
      evaluate (rebind \<beta> ((h @ e1) @ e2)) g2 = Some v"
    by blast
  with g1(1) g2(1) v v1 v2 show ?thesis
    by (intro exI [of _ g1] exI [of _ "h @ e1"] exI [of _ g2] exI [of _ "(h @ e1) @ e2"]) simp
qed

theorem gradient_pure_witness:
  "\<exists>g1 h1 g2 h2.
     gradient [Var ''x'' (3::real), Var ''y'' 4, Mul 0 1] 2 0 = Some (g1, h1) \<and>
     take (length [Var ''x'' (3::real), Var ''y'' 4, Mul 0 1]) h1 =
       [Var ''x'' 3, Var ''y'' 4, Mul 0 1] \<and>
     evaluate h1 2 = Some 12 \<and>
     gradient h1 2 0 = Some (g2, h2) \<and> take (length h1) h2 = h1 \<and>
     evaluate h2 2 = Some 12 \<and>
     (\<forall>\<beta>. \<exists>v. evaluate (rebind \<beta> h2) g1 = Some v \<and> evaluate (rebind \<beta> h2) g2 = Some v)"
proof -
  let ?h = "[Var ''x'' (3::real), Var ''y'' 4, Mul 0 1]"
  have wf: "wf_heap ?h"
    by code_simp
  have v: "evaluate ?h 2 = Some 12"
    by (simp add: evaluate.simps)
  show ?thesis
    using gradient_pure [OF wf, of 2 0] v by simp
qed

subsection \<open>The target of a gradient is an object\<close>

text \<open>
  Claim C8. A variable node differentiates to \<^verbatim>\<open>Const(1)\<close> exactly when it is the target
  object itself (equal addresses), whatever the names and values: two distinct variables
  with the same name have independent gradients. For every well-formed graph, the
  gradient with respect to an object that is not reachable from the graph evaluates to
  zero at every binding of the variables (in a semiring, where \<open>x * 0 = 0 = 0 * x\<close>).
\<close>

theorem gradient_identity:
  fixes h :: "'a::semiring_1 heap"
  shows
    "(n < length h \<and> h ! n = Var nm v \<longrightarrow>
        gradient h n var = Some (length h, h @ [Const (if n = var then 1 else 0)])) \<and>
     (x1 < length h \<and> x2 < length h \<and> x1 \<noteq> x2 \<and> h ! x1 = Var nm v1 \<and> h ! x2 = Var nm v2 \<longrightarrow>
        gradient h x1 x1 = Some (length h, h @ [Const 1]) \<and>
        gradient h x1 x2 = Some (length h, h @ [Const 0]) \<and>
        gradient h x2 x1 = Some (length h, h @ [Const 0]) \<and>
        gradient h x2 x2 = Some (length h, h @ [Const 1])) \<and>
     (wf_heap h \<and> self < length h \<and> \<not> reach h self var \<longrightarrow>
        (\<exists>g h'. gradient h self var = Some (g, h') \<and>
                (\<forall>\<beta>. evaluate (rebind \<beta> h') g = Some 0)))"
proof (intro conjI impI)
  show "\<exists>g h'. gradient h self var = Some (g, h') \<and> (\<forall>\<beta>. evaluate (rebind \<beta> h') g = Some 0)"
    if "wf_heap h \<and> self < length h \<and> \<not> reach h self var"
    using that gradient_unreachable [of h self var] by blast
qed (simp_all add: gradient_Var)

theorem gradient_identity_witness:
  "gradient [Var ''x'' (3::real), Var ''x'' 5, Mul 0 0] 0 0 =
     Some (3, [Var ''x'' 3, Var ''x'' 5, Mul 0 0, Const 1]) \<and>
   gradient [Var ''x'' (3::real), Var ''x'' 5, Mul 0 0] 0 1 =
     Some (3, [Var ''x'' 3, Var ''x'' 5, Mul 0 0, Const 0]) \<and>
   (\<exists>g h'. gradient [Var ''x'' (3::real), Var ''x'' 5, Mul 0 0] 2 1 = Some (g, h') \<and>
           (\<forall>\<beta>. evaluate (rebind \<beta> h') g = Some 0))"
proof -
  let ?h = "[Var ''x'' (3::real), Var ''x'' 5, Mul 0 0]"
  have wf: "wf_heap ?h"
    by code_simp
  have nr: "\<not> reach ?h 2 1"
  proof
    assume "reach ?h 2 1"
    then have "reach ?h 0 1"
      by (cases rule: reach.cases) auto
    then show False
      by (cases rule: reach.cases) auto
  qed
  show ?thesis
    using gradient_identity [where h = ?h and n = 0 and nm = "''x''" and v = 3 and var = 1
        and ?x1.0 = 0 and ?x2.0 = 1 and ?v1.0 = 3 and ?v2.0 = 5 and self = 2] wf nr
    by simp
qed

subsection \<open>The gradient attribute of a variable\<close>

text \<open>
  Claim C9. A variable is constructed with gradient 0. \<^verbatim>\<open>backpropagate(g)\<close> on a variable
  replaces its gradient by the previous gradient plus \<open>g\<close> and never resets it: on a
  fresh variable one pass with seed \<open>g1\<close> leaves exactly \<open>g1\<close>, and a second pass with
  seed \<open>g2\<close>, with no reset in between, leaves \<open>g1 + g2\<close>.
\<close>

theorem Var_accumulator:
  fixes h :: "'a::{monoid_add,times} heapR"
  shows
    "(Var_init nm v h = (x, h1) \<longrightarrow>
        get_gradient h1 x = Some 0 \<and>
        (\<exists>h2 h3. backpropagate h1 x g1 = Some h2 \<and> get_gradient h2 x = Some g1 \<and>
                 backpropagate h2 x g2 = Some h3 \<and> get_gradient h3 x = Some (g1 + g2))) \<and>
     (n < length h \<and> h ! n = VarR nm' v' acc \<longrightarrow>
        backpropagate h n g = Some (h[n := VarR nm' v' (acc + g)]) \<and>
        get_gradient (h[n := VarR nm' v' (acc + g)]) n = Some (acc + g))"
proof (intro conjI impI)
  assume "Var_init nm v h = (x, h1)"
  then have x: "x = length h" and h1: "h1 = h @ [VarR nm v 0]"
    by (simp_all add: Var_init_def newR_def)
  let ?h2 = "h @ [VarR nm v g1]"
  let ?h3 = "h @ [VarR nm v (g1 + g2)]"
  show "get_gradient h1 x = Some 0"
    by (simp add: x h1 get_gradient_def)
  have "backpropagate h1 x g1 = Some ?h2"
    using backpropagate_VarR [of x h1 nm v 0 g1] by (simp add: x h1)
  moreover have "get_gradient ?h2 x = Some g1"
    by (simp add: x get_gradient_def)
  moreover have "backpropagate ?h2 x g2 = Some ?h3"
    using backpropagate_VarR [of x ?h2 nm v g1 g2] by (simp add: x)
  moreover have "get_gradient ?h3 x = Some (g1 + g2)"
    by (simp add: x get_gradient_def)
  ultimately show "\<exists>h2 h3. backpropagate h1 x g1 = Some h2 \<and> get_gradient h2 x = Some g1 \<and>
      backpropagate h2 x g2 = Some h3 \<and> get_gradient h3 x = Some (g1 + g2)"
    by blast
next
  assume "n < length h \<and> h ! n = VarR nm' v' acc"
  then show "backpropagate h n g = Some (h[n := VarR nm' v' (acc + g)])"
    by (simp add: backpropagate_VarR)
next
  assume "n < length h \<and> h ! n = VarR nm' v' acc"
  then show "get_gradient (h[n := VarR nm' v' (acc + g)]) n = Some (acc + g)"
    by (simp add: get_gradient_def)
qed

theorem Var_accumulator_witness:
  "get_gradient (snd (Var_init ''x'' (3::real) [])) 0 = Some 0 \<and>
   (\<exists>h2 h3. backpropagate (snd (Var_init ''x'' (3::real) [])) 0 1 = Some h2 \<and>
            get_gradient h2 0 = Some 1 \<and>
            backpropagate h2 0 1 = Some h3 \<and> get_gradient h3 0 = Some 2)"
  using Var_accumulator [where nm = "''x''" and v = "3::real" and h = "[]" and x = 0
      and ?h1.0 = "snd (Var_init ''x'' (3::real) [])" and ?g1.0 = 1 and ?g2.0 = 1 and n = 0]
  by (simp add: Var_init_def newR_def)

subsection \<open>The input list of the finite-difference estimator\<close>

text \<open>
  Claim C10. \<^verbatim>\<open>gradients\<close> never mutates its input: every list object that exists
  before the call, and so the list passed as \<^verbatim>\<open>vars_list\<close>, holds the same elements
  after it, for every \<^verbatim>\<open>func\<close> and every \<open>e\<close> (also when the call raises). The
  perturbations go to copies that the call allocates.
\<close>

theorem gradients_keeps_input:
  "take (length (list_objs s)) (list_objs (snd (gradients func vars_list e s))) = list_objs s \<and>
   (vars_list < length (list_objs s) \<longrightarrow>
      list_objs (snd (gradients func vars_list e s)) ! vars_list = list_objs s ! vars_list)"
proof -
  have "take (length (list_objs s)) (list_objs (snd (gradients func vars_list e s))) ! vars_list =
        list_objs (snd (gradients func vars_list e s)) ! vars_list"
    if "vars_list < length (list_objs s)"
    using that by simp
  then show ?thesis
    by (simp only: gradients_frame) simp
qed

theorem gradients_keeps_input_witness:
  "list_objs (snd (gradients f_func 0 (1 / 2) \<lparr>list_objs = [[3, 4 :: real]], call_log = []\<rparr>)) ! 0 =
     [3, 4] \<and>
   list_objs (snd (gradients f_func 0 0 \<lparr>list_objs = [[3, 4 :: real]], call_log = []\<rparr>)) ! 0 =
     [3, 4]"
  using gradients_keeps_input
      [of "\<lparr>list_objs = [[3, 4 :: real]], call_log = []\<rparr>" f_func 0 "1 / 2"]
    gradients_keeps_input
      [of "\<lparr>list_objs = [[3, 4 :: real]], call_log = []\<rparr>" f_func 0 0]
  by simp

end
